theory Spec2Isabelle
  imports Main "HOL-Library.AList" "HOL-Library.Sublist"
begin

section \<open>Python values, Param objects and the object store\<close>

text \<open>
  The values a \<open>Param\<close> holds in \<open>ImageComponent\<close>: \<open>None\<close>, the two booleans,
  integers, strings and tuples. The emitters compare a value only with \<open>None\<close>, with
  \<open>True\<close>/\<open>False\<close> (by identity) and with string constants, so HOL equality on this
  type is Python's \<open>==\<close> (and \<open>is\<close>) for every comparison the source makes. Floating
  point values are left out of the embedding.
\<close>

datatype pyval = PyNone | PyBool bool | PyInt int | PyStr string | PyTuple "pyval list"

text \<open>A \<open>Param\<close> object: the attributes the constructor of \<open>ImageComponent\<close> sets and
  the emitters read or assign.\<close>

record param =
  val :: pyval
  valType :: string
  updates :: string

datatype error = KeyError string | AttributeError string | ValueError

text \<open>
  Params are mutable objects: \<open>writeInitCodeJS\<close> assigns to \<open>.val\<close> and \<open>.valType\<close>.
  The store holds every Param object ever created, an address is an index into it, and
  creating an object appends to it. A dictionary keeps its insertion order: it is an
  association list from names to references.
\<close>

type_synonym addr = nat
type_synonym store = "param list"
type_synonym 'v dict = "(string \<times> 'v) list"

text \<open>A value of the dictionary \<open>inits\<close>: a Param object, or (after lines 152 and 154)
  a plain string.\<close>

datatype pyref = PParam addr | PStr string

datatype target = PsychoPy | PsychoJS

definition getitem :: "'v dict \<Rightarrow> string \<Rightarrow> error + 'v" where
  "getitem d k = (case map_of d k of None \<Rightarrow> Inl (KeyError k) | Some v \<Rightarrow> Inr v)"

definition setitem :: "'v dict \<Rightarrow> string \<Rightarrow> 'v \<Rightarrow> 'v dict" where
  "setitem d k v = AList.update k v d"

definition delitem :: "'v dict \<Rightarrow> string \<Rightarrow> error + 'v dict" where
  "delitem d k = (case map_of d k of None \<Rightarrow> Inl (KeyError k) | Some v \<Rightarrow> Inr (AList.delete k d))"

text \<open>
  The component (\<open>self\<close>) together with the world it runs in: its \<open>params\<close> dictionary,
  the sibling sequence of its routine and its own identity there, the object store and
  the output buffer.
\<close>

record state =
  params :: "addr dict"
  routine :: "nat list"
  self_id :: nat
  heap :: store
  buff :: "string list"

section \<open>Collaborators that are not part of the component's file\<close>

text \<open>
  \<open>Param.__str__\<close> and the per-parameter resolution rule of \<open>getInitVals\<close> are imported
  by the component and defined elsewhere. They are parameters of the model: every
  theorem holds for all of them unless it names an assumption.
\<close>

record collab =
  str_Param :: "param \<Rightarrow> string"
  resolve :: "target \<Rightarrow> string \<Rightarrow> param \<Rightarrow> param"

text \<open>
  Modelled from the spec: \<open>getInitVals\<close> is imported from
  \<open>psychopy.experiment.components\<close>, which is not among the sources. Section 3: the
  resolved value map is "created fresh on every resolution call; never mutates the
  source Parameter values"; section 4.1: "for every parameter name \<dots> take the
  parameter's current value and declared type, run it through the Coercion Table for
  target, and store the result". So every entry of \<open>params\<close> is resolved on its own
  (by \<open>resolve\<close>) and stored as a new object, under the same name, in the same order.
\<close>

fun copy_resolved ::
  "(target \<Rightarrow> string \<Rightarrow> param \<Rightarrow> param) \<Rightarrow> target \<Rightarrow> addr dict \<Rightarrow> store \<Rightarrow> store \<times> pyref dict" where
  "copy_resolved rs t [] h = (h, [])"
| "copy_resolved rs t ((n, a) # ps) h =
     (case copy_resolved rs t ps (h @ [rs t n (h ! a)]) of
        (h', inits) \<Rightarrow> (h', (n, PParam (length h)) # inits))"

definition getInitVals :: "collab \<Rightarrow> store \<Rightarrow> addr dict \<Rightarrow> target \<Rightarrow> store \<times> pyref dict" where
  "getInitVals col h ps t = copy_resolved (resolve col) t ps h"

text \<open>
  Modelled from the spec: \<open>getPosInRoutine\<close> is inherited from a base class that is not
  among the sources. Sections 4.3 and 6: it is the component's 1-based ordinal position
  in the routine's sibling sequence, a positive integer.
\<close>

fun position_in :: "nat \<Rightarrow> nat list \<Rightarrow> int option" where
  "position_in c [] = None"
| "position_in c (x # xs) =
     (if x = c then Some 1 else map_option (\<lambda>p. p + 1) (position_in c xs))"

definition getPosInRoutine :: "state \<Rightarrow> error + int" where
  "getPosInRoutine s =
     (case position_in (self_id s) (routine s) of None \<Rightarrow> Inl ValueError | Some p \<Rightarrow> Inr p)"

text \<open>
  Modelled from the spec: the buffer class is not among the sources. Section 6: the
  output sink is append-only, \<open>append(lines)\<close>. The buffer is the sequence of the texts
  handed to it.
\<close>

definition writeIndentedLines :: "string list \<Rightarrow> string \<Rightarrow> string list" where
  "writeIndentedLines b code = b @ [code]"

section \<open>Python's string formatting\<close>

text \<open>
  \<open>'%.1f' % n\<close> for an integer \<open>n\<close>: the decimal digits of \<open>n\<close>, a sign when it is
  negative, and one zero decimal (exact below \<open>2 ^ 53\<close>, where the conversion to a
  float loses nothing).
\<close>

definition digit_char :: "nat \<Rightarrow> char" where
  "digit_char d = ''0123456789'' ! d"

fun digits10 :: "nat \<Rightarrow> string" where
  "digits10 n = (if n < 10 then [digit_char n] else digits10 (n div 10) @ [digit_char (n mod 10)])"

declare digits10.simps [simp del]

definition fmt_1f :: "int \<Rightarrow> string" where
  "fmt_1f n = (if n < 0 then ''-'' else []) @ digits10 (nat \<bar>n\<bar>) @ ''.0''"

text \<open>
  A format string of \<open>str.format\<close>, parsed: literal text, a replacement field
  \<open>{inits[k]}\<close>, or the field \<open>{units}\<close>. The fields are looked up from left to right
  and the first missing key raises \<open>KeyError\<close>. A Param is formatted by its \<open>__str__\<close>,
  a string as itself.
\<close>

datatype piece = Lit string | Inits string | Units

definition str_ref :: "collab \<Rightarrow> store \<Rightarrow> pyref \<Rightarrow> string" where
  "str_ref col h r = (case r of PStr s \<Rightarrow> s | PParam a \<Rightarrow> str_Param col (h ! a))"

fun py_format :: "collab \<Rightarrow> store \<Rightarrow> pyref dict \<Rightarrow> string \<Rightarrow> piece list \<Rightarrow> error + string" where
  "py_format col h inits units [] = Inr []"
| "py_format col h inits units (Lit l # ps) =
     (case py_format col h inits units ps of Inl e \<Rightarrow> Inl e | Inr r \<Rightarrow> Inr (l @ r))"
| "py_format col h inits units (Units # ps) =
     (case py_format col h inits units ps of Inl e \<Rightarrow> Inl e | Inr r \<Rightarrow> Inr (units @ r))"
| "py_format col h inits units (Inits k # ps) =
     (case getitem inits k of Inl e \<Rightarrow> Inl e
      | Inr x \<Rightarrow>
         (case py_format col h inits units ps of Inl e \<Rightarrow> Inl e
          | Inr r \<Rightarrow> Inr (str_ref col h x @ r)))"

section \<open>The constructor\<close>

text \<open>
  \<open>ImageComponent.__init__\<close> after the call of the base constructor (whose result is
  the incoming state): six assignments \<open>self.params[k] = Param(\<dots>)\<close>, then the four
  \<open>del\<close> statements of lines 105 to 108.
\<close>

definition set_new_Param :: "string \<Rightarrow> param \<Rightarrow> state \<Rightarrow> state" where
  "set_new_Param k p s =
     s\<lparr>params := setitem (params s) k (length (heap s)), heap := heap s @ [p]\<rparr>"

definition del_param :: "string \<Rightarrow> state \<Rightarrow> error + state" where
  "del_param k s =
     (case delitem (params s) k of Inl e \<Rightarrow> Inl e | Inr d \<Rightarrow> Inr (s\<lparr>params := d\<rparr>))"

definition ImageComponent_init ::
  "state \<Rightarrow> pyval \<Rightarrow> pyval \<Rightarrow> pyval \<Rightarrow> pyval \<Rightarrow> pyval \<Rightarrow> pyval \<Rightarrow> error + state" where
  "ImageComponent_init s image0 mask0 interpolate0 texRes flipVert flipHoriz =
     (let s1 = set_new_Param ''image''
                 \<lparr>val = image0, valType = ''file'', updates = ''constant''\<rparr> s;
          s2 = set_new_Param ''mask''
                 \<lparr>val = mask0, valType = ''str'', updates = ''constant''\<rparr> s1;
          s3 = set_new_Param ''texture resolution''
                 \<lparr>val = texRes, valType = ''num'', updates = ''constant''\<rparr> s2;
          s4 = set_new_Param ''interpolate''
                 \<lparr>val = interpolate0, valType = ''str'', updates = ''constant''\<rparr> s3;
          s5 = set_new_Param ''flipVert''
                 \<lparr>val = flipVert, valType = ''bool'', updates = ''constant''\<rparr> s4;
          s6 = set_new_Param ''flipHoriz''
                 \<lparr>val = flipHoriz, valType = ''bool'', updates = ''constant''\<rparr> s5
      in case del_param ''fillColor'' s6 of Inl e \<Rightarrow> Inl e
         | Inr s7 \<Rightarrow>
            (case del_param ''fillColorSpace'' s7 of Inl e \<Rightarrow> Inl e
             | Inr s8 \<Rightarrow>
                (case del_param ''borderColor'' s8 of Inl e \<Rightarrow> Inl e
                 | Inr s9 \<Rightarrow> del_param ''borderColorSpace'' s9)))"

section \<open>The Native emitter\<close>

definition native_template :: "piece list" where
  "native_template =
    [Inits ''name'',
     Lit ('' = visual.ImageStim(\<newline>    win=win,\<newline>    name='' @ [CHR 0x27]),
     Inits ''name'', Lit ''', '', Units,
     Lit ''\<newline>    image='', Inits ''image'', Lit '', mask='', Inits ''mask'',
     Lit '',\<newline>    ori='', Inits ''ori'', Lit '', pos='', Inits ''pos'',
     Lit '', size='', Inits ''size'',
     Lit '',\<newline>    color='', Inits ''color'', Lit '', colorSpace='', Inits ''colorSpace'',
     Lit '', opacity='', Inits ''opacity'',
     Lit '',\<newline>    flipHoriz='', Inits ''flipHoriz'', Lit '', flipVert='', Inits ''flipVert'',
     Lit '',\<newline>    texRes='', Inits ''texture resolution'']"

text \<open>Lines 112 to 115: the units clause, from the Param \<open>self.params['units']\<close>.\<close>

definition native_unitsStr :: "collab \<Rightarrow> param \<Rightarrow> string" where
  "native_unitsStr col units =
     (if val units = PyStr ''from exp settings'' then []
      else ''units='' @ str_Param col units @ '', '')"

definition writeInitCode :: "collab \<Rightarrow> state \<Rightarrow> error + state" where
  "writeInitCode col s =
    (case getitem (params s) ''units'' of Inl e \<Rightarrow> Inl e
     | Inr u \<Rightarrow>
        (let unitsStr = native_unitsStr col (heap s ! u)
         in case getInitVals col (heap s) (params s) PsychoPy of
              (h, inits) \<Rightarrow>
                (case py_format col h inits unitsStr native_template of Inl e \<Rightarrow> Inl e
                 | Inr code \<Rightarrow>
                    (case getitem (params s) ''interpolate'' of Inl e \<Rightarrow> Inl e
                     | Inr ip \<Rightarrow>
                        (let code2 = code @
                               (if val (h ! ip) = PyStr ''linear'' then '', interpolate=True''
                                else '', interpolate=False'')
                         in case getPosInRoutine s of Inl e \<Rightarrow> Inl e
                            | Inr p \<Rightarrow>
                               Inr (s\<lparr>heap := h,
                                      buff := writeIndentedLines (buff s)
                                        (code2 @ '', depth='' @ fmt_1f (- p) @ '')\<newline>'')\<rparr>))))))"

section \<open>The Web emitter\<close>

definition js_sentinels :: "pyval list" where
  "js_sentinels = [PyNone, PyStr ''None'', PyStr ''none'', PyStr [], PyStr ''sin'']"

text \<open>One pass of the loop of lines 149 to 157, for the key \<open>paramName\<close>. A string has
  no attribute \<open>val\<close>.\<close>

definition js_coerce_step :: "string \<Rightarrow> store \<times> pyref dict \<Rightarrow> error + store \<times> pyref dict" where
  "js_coerce_step paramName hi =
     (case hi of (h, inits) \<Rightarrow>
        (case getitem inits paramName of Inl e \<Rightarrow> Inl e
         | Inr (PStr x) \<Rightarrow> Inl (AttributeError ''val'')
         | Inr (PParam a) \<Rightarrow>
            (let v = val (h ! a) in
             if v = PyBool True then Inr (h, setitem inits paramName (PStr ''true''))
             else if v = PyBool False then Inr (h, setitem inits paramName (PStr ''false''))
             else if v \<in> set js_sentinels
               then Inr (h[a := (h ! a)\<lparr>valType := ''code'', val := PyStr ''undefined''\<rparr>], inits)
             else Inr (h, inits))))"

fun js_coerce_loop :: "string list \<Rightarrow> store \<times> pyref dict \<Rightarrow> error + store \<times> pyref dict" where
  "js_coerce_loop [] hi = Inr hi"
| "js_coerce_loop (k # ks) hi =
     (case js_coerce_step k hi of Inl e \<Rightarrow> Inl e | Inr hi' \<Rightarrow> js_coerce_loop ks hi')"

definition js_template :: "piece list" where
  "js_template =
    [Inits ''name'',
     Lit ('' = new visual.ImageStim({\<newline>  win : psychoJS.window,\<newline>  name : '' @ [CHR 0x27]),
     Inits ''name'', Lit ''', '', Units,
     Lit ''\<newline>  image : '', Inits ''image'', Lit '', mask : '', Inits ''mask'',
     Lit '',\<newline>  ori : '', Inits ''ori'', Lit '', pos : '', Inits ''pos'',
     Lit '', size : '', Inits ''size'',
     Lit '',\<newline>  color : new util.Color('', Inits ''color'',
     Lit ''), opacity : '', Inits ''opacity'',
     Lit '',\<newline>  flipHoriz : '', Inits ''flipHoriz'', Lit '', flipVert : '', Inits ''flipVert'',
     Lit '',\<newline>  texRes : '', Inits ''texture resolution'']"

text \<open>Lines 141 to 144: the units clause of the Web emitter.\<close>

definition js_unitsStr :: "collab \<Rightarrow> param \<Rightarrow> string" where
  "js_unitsStr col units =
     (if val units = PyStr ''from exp settings'' then ''units : undefined, ''
      else ''units : '' @ str_Param col units @ '', '')"

definition writeInitCodeJS :: "collab \<Rightarrow> state \<Rightarrow> error + state" where
  "writeInitCodeJS col s =
    (case getitem (params s) ''units'' of Inl e \<Rightarrow> Inl e
     | Inr u \<Rightarrow>
        (let unitsStr = js_unitsStr col (heap s ! u)
         in case getInitVals col (heap s) (params s) PsychoJS of
              (h0, inits0) \<Rightarrow>
                (case js_coerce_loop (map fst inits0) (h0, inits0) of Inl e \<Rightarrow> Inl e
                 | Inr (h, inits) \<Rightarrow>
                    (case py_format col h inits unitsStr js_template of Inl e \<Rightarrow> Inl e
                     | Inr code \<Rightarrow>
                        (case getitem (params s) ''interpolate'' of Inl e \<Rightarrow> Inl e
                         | Inr ip \<Rightarrow>
                            (let code2 = code @
                                   (if val (h ! ip) = PyStr ''linear'' then '', interpolate : true''
                                    else '', interpolate : false'')
                             in case getPosInRoutine s of Inl e \<Rightarrow> Inl e
                                | Inr p \<Rightarrow>
                                   Inr (s\<lparr>heap := h,
                                          buff := writeIndentedLines (buff s)
                                            (code2 @ '', depth : '' @ fmt_1f (- p)
                                               @ '' \<newline>});\<newline>'')\<rparr>)))))))"

text \<open>One generation pass for a target.\<close>

definition generate :: "collab \<Rightarrow> target \<Rightarrow> state \<Rightarrow> error + state" where
  "generate col t s = (case t of PsychoPy \<Rightarrow> writeInitCode col s | PsychoJS \<Rightarrow> writeInitCodeJS col s)"

section \<open>Well-formed states\<close>

text \<open>A dictionary has each key once, and a reference points to an object that exists.\<close>

definition wf :: "state \<Rightarrow> bool" where
  "wf s \<longleftrightarrow> distinct (map fst (params s)) \<and> list_all (\<lambda>(n, a). a < length (heap s)) (params s)"

section \<open>What the emitters compute, read off the descriptor\<close>

text \<open>
  The definitions of this section are not taken from the source. They describe the
  result of the source functions above in terms of the descriptor alone, and the lemmas
  of the next sections prove that the source functions compute exactly this
  (\<open>writeInitCode_Inr_iff\<close>, \<open>writeInitCodeJS_Inr_iff\<close>).

  The effect of one pass of the Web loop on the object it visits (\<open>js_obj\<close>) and on
  the entry of \<open>inits\<close> (\<open>js_ref\<close>).
\<close>

definition js_obj :: "param \<Rightarrow> param" where
  "js_obj p =
     (if val p = PyBool True \<or> val p = PyBool False then p
      else if val p \<in> set js_sentinels then p\<lparr>valType := ''code'', val := PyStr ''undefined''\<rparr>
      else p)"

definition js_ref :: "addr \<Rightarrow> param \<Rightarrow> pyref" where
  "js_ref a p =
     (if val p = PyBool True then PStr ''true''
      else if val p = PyBool False then PStr ''false'' else PParam a)"

text \<open>The text a replacement field stands for, given \<open>inits\<close>.\<close>

definition piece_text :: "collab \<Rightarrow> store \<Rightarrow> pyref dict \<Rightarrow> string \<Rightarrow> piece \<Rightarrow> string" where
  "piece_text col h inits units pc =
     (case pc of Lit l \<Rightarrow> l | Units \<Rightarrow> units
      | Inits k \<Rightarrow> (case map_of inits k of Some r \<Rightarrow> str_ref col h r | None \<Rightarrow> []))"

text \<open>The objects \<open>getInitVals\<close> creates, and the dictionary it returns, for a
  well-formed state.\<close>

definition resolved_all :: "collab \<Rightarrow> target \<Rightarrow> state \<Rightarrow> param list" where
  "resolved_all col t s = map (\<lambda>(n, a). resolve col t n (heap s ! a)) (params s)"

definition fresh_inits :: "state \<Rightarrow> pyref dict" where
  "fresh_inits s =
     zip (map fst (params s)) (map PParam [length (heap s) ..< length (heap s) + length (params s)])"

text \<open>The resolved Param of the name \<open>k\<close>, and the text each emitter puts in the place
  of \<open>{inits[k]}\<close>.\<close>

definition resolved :: "collab \<Rightarrow> target \<Rightarrow> state \<Rightarrow> string \<Rightarrow> param option" where
  "resolved col t s k = map_option (\<lambda>a. resolve col t k (heap s ! a)) (map_of (params s) k)"

definition js_text :: "collab \<Rightarrow> param \<Rightarrow> string" where
  "js_text col p =
     (if val p = PyBool True then ''true'' else if val p = PyBool False then ''false''
      else str_Param col (js_obj p))"

definition native_piece :: "collab \<Rightarrow> state \<Rightarrow> string \<Rightarrow> piece \<Rightarrow> string" where
  "native_piece col s units pc =
     (case pc of Lit l \<Rightarrow> l | Units \<Rightarrow> units
      | Inits k \<Rightarrow> (case resolved col PsychoPy s k of Some p \<Rightarrow> str_Param col p | None \<Rightarrow> []))"

definition js_piece :: "collab \<Rightarrow> state \<Rightarrow> string \<Rightarrow> piece \<Rightarrow> string" where
  "js_piece col s units pc =
     (case pc of Lit l \<Rightarrow> l | Units \<Rightarrow> units
      | Inits k \<Rightarrow> (case resolved col PsychoJS s k of Some p \<Rightarrow> js_text col p | None \<Rightarrow> []))"

text \<open>The whole text each emitter appends, for the addresses \<open>u\<close> and \<open>ip\<close> of the
  \<open>units\<close> and \<open>interpolate\<close> Params and the position \<open>p\<close>.\<close>

definition native_code :: "collab \<Rightarrow> state \<Rightarrow> addr \<Rightarrow> addr \<Rightarrow> int \<Rightarrow> string" where
  "native_code col s u ip p =
     concat (map (native_piece col s (native_unitsStr col (heap s ! u))) native_template)
     @ (if val (heap s ! ip) = PyStr ''linear'' then '', interpolate=True''
        else '', interpolate=False'')
     @ '', depth='' @ fmt_1f (- p) @ '')\<newline>''"

definition js_code :: "collab \<Rightarrow> state \<Rightarrow> addr \<Rightarrow> addr \<Rightarrow> int \<Rightarrow> string" where
  "js_code col s u ip p =
     concat (map (js_piece col s (js_unitsStr col (heap s ! u))) js_template)
     @ (if val (heap s ! ip) = PyStr ''linear'' then '', interpolate : true''
        else '', interpolate : false'')
     @ '', depth : '' @ fmt_1f (- p) @ '' \<newline>});\<newline>''"

text \<open>The names a format string looks up, and its literal texts, in order.\<close>

fun fields :: "piece list \<Rightarrow> string list" where
  "fields [] = []"
| "fields (Inits k # ps) = k # fields ps"
| "fields (p # ps) = fields ps"

fun lits :: "piece list \<Rightarrow> string list" where
  "lits [] = []"
| "lits (Lit l # ps) = l # lits ps"
| "lits (p # ps) = lits ps"

text \<open>The text a call handed to the buffer (empty when it raised).\<close>

definition emitted :: "error + state \<Rightarrow> string" where
  "emitted r = (case r of Inl e \<Rightarrow> [] | Inr s \<Rightarrow> last (buff s))"

text \<open>
  The same for \<open>generate\<close>: the format string of a target, the text it produces, the
  literal for \<open>interpolate\<close> (lines 131 to 134 and 171 to 174), the end of the statement
  (lines 135 to 136 and 176 to 178), and the objects a pass creates.
\<close>

definition template_of :: "target \<Rightarrow> piece list" where
  "template_of t = (case t of PsychoPy \<Rightarrow> native_template | PsychoJS \<Rightarrow> js_template)"

definition body_text :: "collab \<Rightarrow> target \<Rightarrow> state \<Rightarrow> addr \<Rightarrow> string" where
  "body_text col t s u =
     (case t of
        PsychoPy \<Rightarrow> concat (map (native_piece col s (native_unitsStr col (heap s ! u))) native_template)
      | PsychoJS \<Rightarrow> concat (map (js_piece col s (js_unitsStr col (heap s ! u))) js_template))"

definition interpolate_text :: "target \<Rightarrow> pyval \<Rightarrow> string" where
  "interpolate_text t v =
     (case t of
        PsychoPy \<Rightarrow> if v = PyStr ''linear'' then '', interpolate=True'' else '', interpolate=False''
      | PsychoJS \<Rightarrow> if v = PyStr ''linear'' then '', interpolate : true''
                    else '', interpolate : false'')"

definition depth_text :: "target \<Rightarrow> int \<Rightarrow> string" where
  "depth_text t p =
     (case t of PsychoPy \<Rightarrow> '', depth='' @ fmt_1f (- p) @ '')\<newline>''
      | PsychoJS \<Rightarrow> '', depth : '' @ fmt_1f (- p) @ '' \<newline>});\<newline>'')"

definition new_objects :: "collab \<Rightarrow> target \<Rightarrow> state \<Rightarrow> param list" where
  "new_objects col t s =
     (case t of PsychoPy \<Rightarrow> resolved_all col PsychoPy s
      | PsychoJS \<Rightarrow> map js_obj (resolved_all col PsychoJS s))"

text \<open>Two states with the same dictionary, routine and identity whose stores agree on
  every Param except, possibly, that of \<open>interpolate\<close>.\<close>

definition same_but_interpolate :: "state \<Rightarrow> state \<Rightarrow> bool" where
  "same_but_interpolate s s2 \<longleftrightarrow>
     wf s2 \<and> params s2 = params s \<and> routine s2 = routine s \<and> self_id s2 = self_id s \<and>
     (\<forall>k a. k \<noteq> ''interpolate'' \<and> map_of (params s) k = Some a \<longrightarrow> heap s2 ! a = heap s ! a)"

section \<open>An example component\<close>

text \<open>
  Modelled from the spec: \<open>Param.__str__\<close> is not among the sources. Section 4.2,
  Native: "boolean values render using the target's native boolean literal syntax; the
  value None renders as the target's native null literal; strings render quoted unless
  declaredType = code, in which case the raw text is emitted unquoted". Numbers and
  tuples are printed as Python prints them. This instance is used for the concrete
  examples only.
\<close>

fun join :: "string \<Rightarrow> string list \<Rightarrow> string" where
  "join sep [] = []"
| "join sep [x] = x"
| "join sep (x # y # ys) = x @ sep @ join sep (y # ys)"

fun repr :: "pyval \<Rightarrow> string" where
  "repr PyNone = ''None''"
| "repr (PyBool b) = (if b then ''True'' else ''False'')"
| "repr (PyInt n) = (if n < 0 then ''-'' else []) @ digits10 (nat \<bar>n\<bar>)"
| "repr (PyStr x) = [CHR 0x27] @ x @ [CHR 0x27]"
| "repr (PyTuple vs) =
     (case vs of [v] \<Rightarrow> ''('' @ repr v @ '',)'' | _ \<Rightarrow> ''('' @ join '', '' (map repr vs) @ '')'')"

definition spec_str_Param :: "param \<Rightarrow> string" where
  "spec_str_Param p =
     (case val p of PyStr x \<Rightarrow> if valType p = ''code'' then x else repr (PyStr x) | v \<Rightarrow> repr v)"

text \<open>
  Modelled from the spec: the per-parameter rule of \<open>getInitVals\<close> is not among the
  sources. Section 8 gives \<open>mask="None"\<close> resolved to the native null literal for the
  Native target; every other value of the example is constant and resolves to itself.
\<close>

definition spec_resolve :: "target \<Rightarrow> string \<Rightarrow> param \<Rightarrow> param" where
  "spec_resolve t n p =
     (if t = PsychoPy \<and> val p \<in> set [PyNone, PyStr ''None'']
      then p\<lparr>val := PyStr ''None'', valType := ''code''\<rparr> else p)"

definition spec_col :: collab where
  "spec_col = \<lparr>str_Param = spec_str_Param, resolve = spec_resolve\<rparr>"

definition mk :: "pyval \<Rightarrow> string \<Rightarrow> param" where
  "mk v t = \<lparr>val = v, valType = t, updates = ''constant''\<rparr>"

text \<open>The state the base constructor leaves: the parameters of a visual component,
  the fill and border colours among them. The component is the first of two in its
  routine.\<close>

definition example_base :: state where
  "example_base =
    \<lparr>params = [(''name'', 0), (''units'', 1), (''color'', 2), (''colorSpace'', 3), (''pos'', 4),
               (''size'', 5), (''ori'', 6), (''opacity'', 7), (''fillColor'', 8),
               (''fillColorSpace'', 9), (''borderColor'', 10), (''borderColorSpace'', 11)],
     routine = [7, 3], self_id = 7,
     heap = [mk (PyStr ''image'') ''code'', mk (PyStr ''from exp settings'') ''str'',
             mk (PyStr ''[1,1,1]'') ''code'', mk (PyStr ''rgb'') ''str'',
             mk (PyTuple [PyInt 0, PyInt 0]) ''code'', mk (PyTuple [PyInt 1, PyInt 1]) ''code'',
             mk (PyInt 0) ''code'', mk (PyInt 1) ''code'',
             mk (PyStr ''[1,1,1]'') ''code'', mk (PyStr ''rgb'') ''str'',
             mk (PyStr ''[1,1,1]'') ''code'', mk (PyStr ''rgb'') ''str''],
     buff = []\<rparr>"

text \<open>The component of the scenario of section 8, as the constructor builds it from
  \<open>example_base\<close> (lemma \<open>example_constructed\<close>).\<close>

definition example :: state where
  "example =
    \<lparr>params = [(''name'', 0), (''units'', 1), (''color'', 2), (''colorSpace'', 3), (''pos'', 4),
               (''size'', 5), (''ori'', 6), (''opacity'', 7), (''image'', 12), (''mask'', 13),
               (''texture resolution'', 14), (''interpolate'', 15), (''flipVert'', 16),
               (''flipHoriz'', 17)],
     routine = [7, 3], self_id = 7,
     heap = [mk (PyStr ''image'') ''code'', mk (PyStr ''from exp settings'') ''str'',
             mk (PyStr ''[1,1,1]'') ''code'', mk (PyStr ''rgb'') ''str'',
             mk (PyTuple [PyInt 0, PyInt 0]) ''code'', mk (PyTuple [PyInt 1, PyInt 1]) ''code'',
             mk (PyInt 0) ''code'', mk (PyInt 1) ''code'',
             mk (PyStr ''[1,1,1]'') ''code'', mk (PyStr ''rgb'') ''str'',
             mk (PyStr ''[1,1,1]'') ''code'', mk (PyStr ''rgb'') ''str'',
             mk (PyStr ''face.jpg'') ''file'', mk (PyStr ''None'') ''str'',
             mk (PyStr ''128'') ''num'', mk (PyStr ''linear'') ''str'',
             mk (PyBool False) ''bool'', mk (PyBool False) ''bool''],
     buff = []\<rparr>"

text \<open>The example with the value of the Param at address \<open>a\<close> replaced (the editing
  layer's assignment \<open>param.val = v\<close>).\<close>

definition example_with :: "addr \<Rightarrow> pyval \<Rightarrow> state" where
  "example_with a v = example\<lparr>heap := (heap example)[a := (heap example ! a)\<lparr>val := v\<rparr>]\<rparr>"

text \<open>The second component of the same routine, with the same parameters.\<close>

definition example_second :: state where
  "example_second = example\<lparr>self_id := 3\<rparr>"

section \<open>Dictionaries, the store and the loop of the Web emitter\<close>

lemma getitem_Inr_iff: "getitem d k = Inr v \<longleftrightarrow> map_of d k = Some v"
  by (simp add: getitem_def split: option.splits)

lemma getitem_Inl_iff: "getitem d k = Inl e \<longleftrightarrow> map_of d k = None \<and> e = KeyError k"
  by (auto simp: getitem_def split: option.splits)

lemma copy_resolved_eq:
  "list_all (\<lambda>(n, a). a < length h) ps \<Longrightarrow>
   copy_resolved rs t ps h =
     (h @ map (\<lambda>(n, a). rs t n (h ! a)) ps,
      zip (map fst ps) (map PParam [length h ..< length h + length ps]))"
proof (induction ps arbitrary: h)
  case Nil
  then show ?case by simp
next
  case (Cons x ps)
  obtain n a where x: "x = (n, a)" by (cases x)
  from Cons.prems x have a: "a < length h" and rest: "list_all (\<lambda>(n, a). a < length h) ps"
    by simp_all
  have rest': "list_all (\<lambda>(n', a'). a' < length (h @ [rs t n (h ! a)])) ps"
    using rest by (auto simp: list_all_iff)
  have same: "map (\<lambda>(n', a'). rs t n' ((h @ [rs t n (h ! a)]) ! a')) ps =
              map (\<lambda>(n', a'). rs t n' (h ! a')) ps"
    using rest by (auto simp: list_all_iff nth_append)
  have ih: "copy_resolved rs t ps (h @ [rs t n (h ! a)]) =
      (h @ [rs t n (h ! a)] @ map (\<lambda>(n', a'). rs t n' (h ! a')) ps,
       zip (map fst ps) (map PParam [Suc (length h) ..< Suc (length h) + length ps]))"
    using Cons.IH [OF rest'] by (simp add: same del: upt_Suc)
  have upt: "[length h ..< length h + length (x # ps)] =
             length h # [Suc (length h) ..< Suc (length h) + length ps]"
    by (simp add: upt_conv_Cons del: upt_Suc)
  show ?case
    by (subst upt) (simp add: x ih del: upt_Suc)
qed

lemma map_of_zip_upt:
  assumes "distinct (map fst ps)" and "map_of ps k = Some a"
  shows "\<exists>i < length ps. ps ! i = (k, a) \<and>
           map_of (zip (map fst ps) (map f [m ..< m + length ps])) k = Some (f (m + i))"
proof -
  from assms(2) have "(k, a) \<in> set ps" by (rule map_of_SomeD)
  then obtain i where i: "i < length ps" "ps ! i = (k, a)" by (auto simp: in_set_conv_nth)
  have "map_of (zip (map fst ps) (map f [m ..< m + length ps])) (map fst ps ! i)
          = Some (map f [m ..< m + length ps] ! i)"
    using assms(1) i(1) by (intro map_of_zip_nth) simp_all
  with i show ?thesis by auto
qed

lemma map_of_zip_None:
  "length ks = length vs \<Longrightarrow> map_of (zip ks vs) k = None \<longleftrightarrow> k \<notin> set ks"
  by (metis map_of_zip_is_None)

lemma js_coerce_step_eq:
  assumes "map_of inits k = Some (PParam a)" and "a < length h"
  shows "\<exists>inits'. js_coerce_step k (h, inits) = Inr (h[a := js_obj (h ! a)], inits') \<and>
           map_of inits' = (map_of inits)(k \<mapsto> js_ref a (h ! a)) \<and>
           map fst inits' = map fst inits"
proof -
  have k: "k \<in> set (map fst inits)"
    using assms(1) by (metis map_of_eq_None_iff option.distinct(1) set_map)
  have g: "getitem inits k = Inr (PParam a)" using assms(1) by (simp add: getitem_Inr_iff)
  have upd: "map fst (AList.update k v inits) = map fst inits" for v
    using k by (simp add: update_keys)
  show ?thesis
    using assms
    by (auto simp: js_coerce_step_def g js_obj_def js_ref_def setitem_def update_conv' upd
        Let_def list_update_same_conv fun_upd_idem)
qed

lemma js_obj_idem: "js_obj (js_obj p) = js_obj p"
  by (simp add: js_obj_def js_sentinels_def)

lemma js_ref_js_obj: "js_ref a (js_obj p) = js_ref a p"
  by (simp add: js_obj_def js_ref_def js_sentinels_def)

lemma js_coerce_loop_spec:
  assumes "distinct ks"
    and "\<forall>k\<in>set ks. \<exists>a. map_of inits k = Some (PParam a) \<and> a < length h"
  shows "\<exists>h' inits'. js_coerce_loop ks (h, inits) = Inr (h', inits') \<and>
           length h' = length h \<and> map fst inits' = map fst inits \<and>
           (\<forall>k a. k \<in> set ks \<longrightarrow> map_of inits k = Some (PParam a) \<longrightarrow>
                  map_of inits' k = Some (js_ref a (h ! a)) \<and> h' ! a = js_obj (h ! a)) \<and>
           (\<forall>k. k \<notin> set ks \<longrightarrow> map_of inits' k = map_of inits k) \<and>
           (\<forall>b. (\<forall>k\<in>set ks. map_of inits k \<noteq> Some (PParam b)) \<longrightarrow> h' ! b = h ! b)"
  using assms
proof (induction ks arbitrary: h inits)
  case Nil
  then show ?case by simp
next
  case (Cons k ks)
  from Cons.prems(2) obtain a where a: "map_of inits k = Some (PParam a)" "a < length h"
    by auto
  from js_coerce_step_eq [OF a] obtain inits1 where
    step: "js_coerce_step k (h, inits) = Inr (h[a := js_obj (h ! a)], inits1)" and
    m1: "map_of inits1 = (map_of inits)(k \<mapsto> js_ref a (h ! a))" and
    f1: "map fst inits1 = map fst inits" by blast
  let ?h1 = "h[a := js_obj (h ! a)]"
  from Cons.prems(1) have kn: "k \<notin> set ks" and dks: "distinct ks" by simp_all
  have same: "map_of inits1 k' = map_of inits k'" if "k' \<in> set ks" for k'
    using that kn by (auto simp: m1)
  have p2: "\<forall>k'\<in>set ks. \<exists>a'. map_of inits1 k' = Some (PParam a') \<and> a' < length ?h1"
    using Cons.prems(2) same by auto
  from Cons.IH [OF dks p2] obtain h' inits' where
    loop: "js_coerce_loop ks (?h1, inits1) = Inr (h', inits')" and
    len: "length h' = length ?h1" and fs: "map fst inits' = map fst inits1" and
    ins: "\<And>k' a'. k' \<in> set ks \<Longrightarrow> map_of inits1 k' = Some (PParam a') \<Longrightarrow>
            map_of inits' k' = Some (js_ref a' (?h1 ! a')) \<and> h' ! a' = js_obj (?h1 ! a')" and
    outs: "\<And>k'. k' \<notin> set ks \<Longrightarrow> map_of inits' k' = map_of inits1 k'" and
    frame: "\<And>b. (\<forall>k'\<in>set ks. map_of inits1 k' \<noteq> Some (PParam b)) \<Longrightarrow> h' ! b = ?h1 ! b"
    by blast
  have h1: "js_ref b (?h1 ! b) = js_ref b (h ! b) \<and> js_obj (?h1 ! b) = js_obj (h ! b)" for b
    using a(2) by (cases "b = a") (simp_all add: js_obj_idem js_ref_js_obj)
  have r1: "js_coerce_loop (k # ks) (h, inits) = Inr (h', inits')"
    by (simp add: step loop)
  have later: "map_of inits' k' = Some (js_ref a' (h ! a')) \<and> h' ! a' = js_obj (h ! a')"
    if "k' \<in> set ks" "map_of inits k' = Some (PParam a')" for k' a'
  proof -
    have "map_of inits1 k' = Some (PParam a')" using that by (simp add: same)
    from ins [OF that(1) this] show ?thesis by (simp add: h1)
  qed
  have r4: "map_of inits' k' = Some (js_ref a' (h ! a')) \<and> h' ! a' = js_obj (h ! a')"
    if "k' \<in> set (k # ks)" "map_of inits k' = Some (PParam a')" for k' a'
  proof (cases "k' = k")
    case True
    with that a have aa: "a' = a" by simp
    have m: "map_of inits' k = Some (js_ref a (h ! a))"
      using outs [OF kn] by (simp add: m1)
    have "h' ! a = js_obj (h ! a)"
    proof (cases "\<exists>k''\<in>set ks. map_of inits k'' = Some (PParam a)")
      case True
      then obtain k'' where "k'' \<in> set ks" "map_of inits k'' = Some (PParam a)" by blast
      from later [OF this] show ?thesis by simp
    next
      case False
      then have "\<forall>k'\<in>set ks. map_of inits1 k' \<noteq> Some (PParam a)" by (simp add: same)
      from frame [OF this] a(2) show ?thesis by simp
    qed
    with m True aa show ?thesis by simp
  next
    case False
    with that have "k' \<in> set ks" by simp
    from later [OF this that(2)] show ?thesis .
  qed
  have r5: "map_of inits' k' = map_of inits k'" if "k' \<notin> set (k # ks)" for k'
    using that outs [of k'] by (simp add: m1)
  have r6: "h' ! b = h ! b" if "\<forall>k'\<in>set (k # ks). map_of inits k' \<noteq> Some (PParam b)" for b
  proof -
    from that a(1) have "b \<noteq> a" by auto
    moreover have "h' ! b = ?h1 ! b"
      by (rule frame) (use that same in auto)
    ultimately show ?thesis by simp
  qed
  have len': "length h' = length h" using len by simp
  have fs': "map fst inits' = map fst inits" using fs f1 by simp
  have R4: "\<forall>k' a'. k' \<in> set (k # ks) \<longrightarrow> map_of inits k' = Some (PParam a') \<longrightarrow>
              map_of inits' k' = Some (js_ref a' (h ! a')) \<and> h' ! a' = js_obj (h ! a')"
    using r4 by blast
  have R5: "\<forall>k'. k' \<notin> set (k # ks) \<longrightarrow> map_of inits' k' = map_of inits k'"
    using r5 by blast
  have R6: "\<forall>b. (\<forall>k'\<in>set (k # ks). map_of inits k' \<noteq> Some (PParam b)) \<longrightarrow> h' ! b = h ! b"
    using r6 by blast
  show ?case
    by (rule exI [of _ h'], rule exI [of _ inits']) (intro conjI r1 len' fs' R4 R5 R6)
qed

lemma py_format_ok:
  "\<forall>k. Inits k \<in> set tpl \<longrightarrow> map_of inits k \<noteq> None \<Longrightarrow>
   py_format col h inits u tpl = Inr (concat (map (piece_text col h inits u) tpl))"
proof (induction tpl)
  case Nil
  then show ?case by simp
next
  case (Cons pc tpl)
  then show ?case
    by (cases pc) (auto simp: piece_text_def getitem_def split: option.splits)
qed

lemma py_format_Inl:
  "py_format col h inits u tpl = Inl e \<Longrightarrow>
   \<exists>k. Inits k \<in> set tpl \<and> map_of inits k = None \<and> e = KeyError k"
proof (induction tpl)
  case Nil
  then show ?case by simp
next
  case (Cons pc tpl)
  then show ?case
    by (cases pc) (auto simp: getitem_def split: option.splits sum.splits)
qed

lemma py_format_Inr:
  assumes "py_format col h inits u tpl = Inr code"
  shows "\<forall>k. Inits k \<in> set tpl \<longrightarrow> map_of inits k \<noteq> None"
  using assms
proof (induction tpl arbitrary: code)
  case Nil
  then show ?case by simp
next
  case (Cons pc tpl)
  then show ?case
    by (cases pc) (auto simp: getitem_def split: option.splits sum.splits)
qed

lemma wf_addr: "wf s \<Longrightarrow> map_of (params s) k = Some a \<Longrightarrow> a < length (heap s)"
  by (auto simp: wf_def list_all_iff dest: map_of_SomeD)

lemma getInitVals_eq:
  assumes "wf s"
  shows "getInitVals col (heap s) (params s) t =
           (heap s @ resolved_all col t s, fresh_inits s)"
  using assms
  by (simp add: getInitVals_def wf_def copy_resolved_eq resolved_all_def fresh_inits_def)

lemma inits0_lookup:
  assumes "wf s" and "map_of (params s) k = Some a"
  shows "\<exists>i < length (params s). params s ! i = (k, a) \<and>
           map_of (fresh_inits s) k = Some (PParam (length (heap s) + i)) \<and>
           (heap s @ resolved_all col t s) ! (length (heap s) + i) = resolve col t k (heap s ! a)"
proof -
  from assms have d: "distinct (map fst (params s))" by (simp add: wf_def)
  from map_of_zip_upt [OF d assms(2), of PParam "length (heap s)"] obtain i where
    i: "i < length (params s)" "params s ! i = (k, a)"
       "map_of (fresh_inits s) k = Some (PParam (length (heap s) + i))"
    unfolding fresh_inits_def by blast
  have "(heap s @ resolved_all col t s) ! (length (heap s) + i) = resolved_all col t s ! i"
    by (simp add: nth_append)
  also have "\<dots> = resolve col t k (heap s ! a)"
    using i(1,2) by (simp add: resolved_all_def)
  finally show ?thesis using i by blast
qed

lemma inits0_None: "map_of (params s) k = None \<Longrightarrow> map_of (fresh_inits s) k = None"
proof -
  assume "map_of (params s) k = None"
  then have "k \<notin> set (map fst (params s))" by (simp add: map_of_eq_None_iff)
  moreover have "map_of (fresh_inits s) k = None \<longleftrightarrow> k \<notin> set (map fst (params s))"
    unfolding fresh_inits_def by (rule map_of_zip_None) simp
  ultimately show ?thesis by blast
qed

lemma fresh_inits_keys: "map fst (fresh_inits s) = map fst (params s)"
  by (simp add: fresh_inits_def)

lemma native_piece_eq:
  assumes "wf s"
  shows "piece_text col (heap s @ resolved_all col PsychoPy s) (fresh_inits s) u pc
         = native_piece col s u pc"
proof (cases pc)
  case (Inits k)
  show ?thesis
  proof (cases "map_of (params s) k")
    case None
    show ?thesis
      by (simp add: Inits piece_text_def native_piece_def resolved_def None inits0_None [OF None]
          del: map_of_eq_None_iff)
  next
    case (Some a)
    from inits0_lookup [OF assms Some, of col PsychoPy] show ?thesis
      by (auto simp: Inits piece_text_def native_piece_def resolved_def Some str_ref_def)
  qed
qed (simp_all add: piece_text_def native_piece_def)

lemma js_loop_result:
  assumes "wf s"
  shows "\<exists>inits'. js_coerce_loop (map fst (fresh_inits s))
             (heap s @ resolved_all col PsychoJS s, fresh_inits s)
           = Inr (heap s @ map js_obj (resolved_all col PsychoJS s), inits') \<and>
           (\<forall>k. map_of (params s) k = None \<longrightarrow> map_of inits' k = None) \<and>
           (\<forall>k a. map_of (params s) k = Some a \<longrightarrow>
              (\<exists>r. map_of inits' k = Some r \<and>
                 str_ref col (heap s @ map js_obj (resolved_all col PsychoJS s)) r
                   = js_text col (resolve col PsychoJS k (heap s ! a))))"
proof -
  let ?R = "resolved_all col PsychoJS s"
  let ?m = "length (heap s)"
  let ?h = "heap s @ ?R"
  let ?ks = "map fst (fresh_inits s)"
  have lenR: "length ?R = length (params s)" by (simp add: resolved_all_def)
  have ks: "?ks = map fst (params s)" by (rule fresh_inits_keys)
  from assms have d: "distinct (map fst (params s))" by (simp add: wf_def)
  have look: "\<exists>i < length (params s). params s ! i = (k, a) \<and>
           map_of (fresh_inits s) k = Some (PParam (?m + i)) \<and> ?h ! (?m + i) = resolve col PsychoJS k (heap s ! a)"
    if "map_of (params s) k = Some a" for k a
    using inits0_lookup [OF assms that, of col PsychoJS] .
  have key_some: "\<exists>a. map_of (params s) k = Some a" if "k \<in> set ?ks" for k
    using that unfolding ks by (metis map_of_eq_None_iff not_Some_eq set_map)
  have p1: "distinct ?ks" using d by (simp add: ks)
  have p2: "\<forall>k\<in>set ?ks. \<exists>a. map_of (fresh_inits s) k = Some (PParam a) \<and> a < length ?h"
  proof
    fix k assume "k \<in> set ?ks"
    from key_some [OF this] obtain a where "map_of (params s) k = Some a" ..
    from look [OF this] show "\<exists>a. map_of (fresh_inits s) k = Some (PParam a) \<and> a < length ?h"
      by (auto simp: lenR)
  qed
  from js_coerce_loop_spec [OF p1 p2] obtain h' inits' where
    loop: "js_coerce_loop ?ks (?h, fresh_inits s) = Inr (h', inits')" and
    len: "length h' = length ?h" and
    ins: "\<And>k a. k \<in> set ?ks \<Longrightarrow> map_of (fresh_inits s) k = Some (PParam a) \<Longrightarrow>
            map_of inits' k = Some (js_ref a (?h ! a)) \<and> h' ! a = js_obj (?h ! a)" and
    outs: "\<And>k. k \<notin> set ?ks \<Longrightarrow> map_of inits' k = map_of (fresh_inits s) k" and
    frame: "\<And>b. (\<forall>k\<in>set ?ks. map_of (fresh_inits s) k \<noteq> Some (PParam b)) \<Longrightarrow> h' ! b = ?h ! b"
    by blast
  have old: "h' ! b = heap s ! b" if "b < ?m" for b
  proof -
    have "\<forall>k\<in>set ?ks. map_of (fresh_inits s) k \<noteq> Some (PParam b)"
    proof
      fix k assume "k \<in> set ?ks"
      from key_some [OF this] obtain a where "map_of (params s) k = Some a" ..
      from look [OF this] obtain i where "map_of (fresh_inits s) k = Some (PParam (?m + i))"
        by blast
      with that show "map_of (fresh_inits s) k \<noteq> Some (PParam b)" by simp
    qed
    from frame [OF this] that show ?thesis by (simp add: nth_append)
  qed
  have new: "h' ! (?m + i) = js_obj (?R ! i)" if "i < length (params s)" for i
  proof -
    obtain k a where ka: "params s ! i = (k, a)" by (cases "params s ! i")
    with that have "(k, a) \<in> set (params s)" by (metis nth_mem)
    with d have m: "map_of (params s) k = Some a" by (simp add: map_of_eq_Some_iff)
    from look [OF m] obtain j where j: "j < length (params s)" "params s ! j = (k, a)"
      "map_of (fresh_inits s) k = Some (PParam (?m + j))" by blast
    have "map fst (params s) ! i = map fst (params s) ! j" using that j(1,2) ka by simp
    moreover have "i < length (map fst (params s))" "j < length (map fst (params s))"
      using that j(1) by simp_all
    ultimately have "i = j" using d by (simp only: nth_eq_iff_index_eq)
    have "k \<in> set ?ks" using m unfolding ks
      by (metis map_of_eq_None_iff option.distinct(1) set_map)
    from ins [OF this j(3)] have "h' ! (?m + j) = js_obj (?h ! (?m + j))" by simp
    with \<open>i = j\<close> show ?thesis by (simp add: nth_append)
  qed
  have heq: "h' = heap s @ map js_obj ?R"
  proof (rule nth_equalityI)
    show "length h' = length (heap s @ map js_obj ?R)" using len by simp
  next
    fix b assume b: "b < length h'"
    show "h' ! b = (heap s @ map js_obj ?R) ! b"
    proof (cases "b < ?m")
      case True
      then show ?thesis by (simp add: old nth_append)
    next
      case False
      then obtain i where i: "b = ?m + i" by (metis le_add_diff_inverse not_less)
      with b len have "i < length (params s)" by (simp add: lenR)
      with new [OF this] i show ?thesis by (simp add: nth_append lenR)
    qed
  qed
  have none: "map_of inits' k = None" if "map_of (params s) k = None" for k
  proof -
    from that have "k \<notin> set ?ks" unfolding ks by (simp add: map_of_eq_None_iff)
    from outs [OF this] inits0_None [OF that] show ?thesis by simp
  qed
  have some: "\<exists>r. map_of inits' k = Some r \<and>
                 str_ref col (heap s @ map js_obj ?R) r = js_text col (resolve col PsychoJS k (heap s ! a))"
    if m: "map_of (params s) k = Some a" for k a
  proof -
    from look [OF m] obtain j where j: "j < length (params s)" "params s ! j = (k, a)"
      "map_of (fresh_inits s) k = Some (PParam (?m + j))"
      "?h ! (?m + j) = resolve col PsychoJS k (heap s ! a)" by blast
    have "k \<in> set ?ks" using m unfolding ks
      by (metis map_of_eq_None_iff option.distinct(1) set_map)
    from ins [OF this j(3)] have r: "map_of inits' k = Some (js_ref (?m + j) (?h ! (?m + j)))"
      and o: "h' ! (?m + j) = js_obj (?h ! (?m + j))" by simp_all
    let ?p = "resolve col PsychoJS k (heap s ! a)"
    have "str_ref col h' (js_ref (?m + j) ?p) = js_text col ?p"
      using o j(4) by (simp add: str_ref_def js_ref_def js_text_def)
    with r j(4) heq show ?thesis by simp
  qed
  from loop heq none some show ?thesis by blast
qed

lemma fresh_inits_None_iff: "map_of (fresh_inits s) k = None \<longleftrightarrow> map_of (params s) k = None"
proof -
  have "map_of (fresh_inits s) k = None \<longleftrightarrow> k \<notin> set (map fst (params s))"
    unfolding fresh_inits_def by (rule map_of_zip_None) simp
  then show ?thesis by (simp add: map_of_eq_None_iff)
qed

lemma py_format_iff:
  "py_format col h inits u tpl = Inr code \<longleftrightarrow>
     (\<forall>k. Inits k \<in> set tpl \<longrightarrow> map_of inits k \<noteq> None) \<and>
     code = concat (map (piece_text col h inits u) tpl)"
  using py_format_ok [of tpl inits col h u] py_format_Inr [of col h inits u tpl code]
  by auto

lemma writeInitCode_Inr_iff:
  assumes "wf s"
  shows "writeInitCode col s = Inr s' \<longleftrightarrow>
    (\<exists>u ip p. map_of (params s) ''units'' = Some u \<and>
       (\<forall>k. Inits k \<in> set native_template \<longrightarrow> map_of (params s) k \<noteq> None) \<and>
       map_of (params s) ''interpolate'' = Some ip \<and>
       position_in (self_id s) (routine s) = Some p \<and>
       s' = s\<lparr>heap := heap s @ resolved_all col PsychoPy s,
              buff := buff s @ [native_code col s u ip p]\<rparr>)"
proof -
  have fmt: "py_format col (heap s @ resolved_all col PsychoPy s) (fresh_inits s) us native_template
          = Inr code \<longleftrightarrow>
        (\<forall>k. Inits k \<in> set native_template \<longrightarrow> map_of (params s) k \<noteq> None) \<and>
        code = concat (map (native_piece col s us) native_template)" for us code
  proof -
    have "piece_text col (heap s @ resolved_all col PsychoPy s) (fresh_inits s) us
            = native_piece col s us"
      by (rule ext) (rule native_piece_eq [OF assms])
    then show ?thesis by (simp only: py_format_iff fresh_inits_None_iff)
  qed
  have old: "(heap s @ xs) ! a = heap s ! a" if "map_of (params s) k = Some a" for xs k a
    using wf_addr [OF assms that] by (simp add: nth_append)
  show ?thesis
  proof (cases "map_of (params s) ''units''")
    case None
    then show ?thesis by (simp add: writeInitCode_def getitem_def)
  next
    case u: (Some u)
    show ?thesis
    proof (cases "py_format col (heap s @ resolved_all col PsychoPy s) (fresh_inits s)
                    (native_unitsStr col (heap s ! u)) native_template")
      case (Inl e)
      then have "\<not> (\<forall>k. Inits k \<in> set native_template \<longrightarrow> map_of (params s) k \<noteq> None)"
        using fmt by (metis sum.distinct(1))
      with Inl show ?thesis
        by (simp add: writeInitCode_def getitem_def u getInitVals_eq [OF assms])
    next
      case (Inr code)
      with fmt have all: "\<forall>k. Inits k \<in> set native_template \<longrightarrow> map_of (params s) k \<noteq> None"
        and code: "code = concat (map (native_piece col s (native_unitsStr col (heap s ! u)))
                      native_template)" by blast+
      show ?thesis
      proof (cases "map_of (params s) ''interpolate''")
        case None
        then show ?thesis
          by (simp add: writeInitCode_def getitem_def u getInitVals_eq [OF assms] Inr)
      next
        case ip: (Some ip)
        show ?thesis
        proof (cases "position_in (self_id s) (routine s)")
          case None
          then show ?thesis
            by (simp add: writeInitCode_def getitem_def u getInitVals_eq [OF assms] Inr ip
                getPosInRoutine_def)
        next
          case (Some p)
          have "writeInitCode col s =
                  Inr (s\<lparr>heap := heap s @ resolved_all col PsychoPy s,
                         buff := buff s @ [native_code col s u ip p]\<rparr>)"
            by (simp add: writeInitCode_def getitem_def u getInitVals_eq [OF assms] Inr ip
                getPosInRoutine_def Some writeIndentedLines_def native_code_def code
                old [OF ip])
          with u all ip Some show ?thesis by auto
        qed
      qed
    qed
  qed
qed

lemma writeInitCodeJS_Inr_iff:
  assumes "wf s"
  shows "writeInitCodeJS col s = Inr s' \<longleftrightarrow>
    (\<exists>u ip p. map_of (params s) ''units'' = Some u \<and>
       (\<forall>k. Inits k \<in> set js_template \<longrightarrow> map_of (params s) k \<noteq> None) \<and>
       map_of (params s) ''interpolate'' = Some ip \<and>
       position_in (self_id s) (routine s) = Some p \<and>
       s' = s\<lparr>heap := heap s @ map js_obj (resolved_all col PsychoJS s),
              buff := buff s @ [js_code col s u ip p]\<rparr>)"
proof -
  let ?h = "heap s @ map js_obj (resolved_all col PsychoJS s)"
  from js_loop_result [OF assms, of col] obtain inits' where
    loop: "js_coerce_loop (map fst (fresh_inits s))
             (heap s @ resolved_all col PsychoJS s, fresh_inits s) = Inr (?h, inits')" and
    none: "\<And>k. map_of (params s) k = None \<Longrightarrow> map_of inits' k = None" and
    some: "\<And>k a. map_of (params s) k = Some a \<Longrightarrow>
              \<exists>r. map_of inits' k = Some r \<and>
                 str_ref col ?h r = js_text col (resolve col PsychoJS k (heap s ! a))"
    by blast
  have none_iff: "map_of inits' k = None \<longleftrightarrow> map_of (params s) k = None" for k
    using none [of k] some [of k] by (cases "map_of (params s) k") auto
  have pc: "piece_text col ?h inits' us = js_piece col s us" for us
  proof
    fix pc show "piece_text col ?h inits' us pc = js_piece col s us pc"
    proof (cases pc)
      case (Inits k)
      show ?thesis
      proof (cases "map_of (params s) k")
        case None
        show ?thesis
          by (simp add: Inits piece_text_def js_piece_def resolved_def None none [OF None]
              del: map_of_eq_None_iff)
      next
        case (Some a)
        from some [OF Some] show ?thesis
          by (auto simp: Inits piece_text_def js_piece_def resolved_def Some)
      qed
    qed (simp_all add: piece_text_def js_piece_def)
  qed
  have fmt: "py_format col ?h inits' us js_template = Inr code \<longleftrightarrow>
        (\<forall>k. Inits k \<in> set js_template \<longrightarrow> map_of (params s) k \<noteq> None) \<and>
        code = concat (map (js_piece col s us) js_template)" for us code
    by (simp only: py_format_iff none_iff pc)
  have old: "(heap s @ xs) ! a = heap s ! a" if "map_of (params s) k = Some a" for xs k a
    using wf_addr [OF assms that] by (simp add: nth_append)
  show ?thesis
  proof (cases "map_of (params s) ''units''")
    case None
    then show ?thesis by (simp add: writeInitCodeJS_def getitem_def)
  next
    case u: (Some u)
    show ?thesis
    proof (cases "py_format col ?h inits' (js_unitsStr col (heap s ! u)) js_template")
      case (Inl e)
      then have "\<not> (\<forall>k. Inits k \<in> set js_template \<longrightarrow> map_of (params s) k \<noteq> None)"
        using fmt by (metis sum.distinct(1))
      with Inl show ?thesis
        by (simp add: writeInitCodeJS_def getitem_def u getInitVals_eq [OF assms] loop)
    next
      case (Inr code)
      with fmt have all: "\<forall>k. Inits k \<in> set js_template \<longrightarrow> map_of (params s) k \<noteq> None"
        and code: "code = concat (map (js_piece col s (js_unitsStr col (heap s ! u)))
                      js_template)" by blast+
      show ?thesis
      proof (cases "map_of (params s) ''interpolate''")
        case None
        then show ?thesis
          by (simp add: writeInitCodeJS_def getitem_def u getInitVals_eq [OF assms] loop Inr)
      next
        case ip: (Some ip)
        show ?thesis
        proof (cases "position_in (self_id s) (routine s)")
          case None
          then show ?thesis
            by (simp add: writeInitCodeJS_def getitem_def u getInitVals_eq [OF assms] loop Inr ip
                getPosInRoutine_def)
        next
          case (Some p)
          have "writeInitCodeJS col s =
                  Inr (s\<lparr>heap := ?h, buff := buff s @ [js_code col s u ip p]\<rparr>)"
            by (simp add: writeInitCodeJS_def getitem_def u getInitVals_eq [OF assms] loop Inr ip
                getPosInRoutine_def Some writeIndentedLines_def js_code_def code
                old [OF ip])
          with u all ip Some show ?thesis by auto
        qed
      qed
    qed
  qed
qed

section \<open>The claims\<close>

subsection \<open>The shape of the emitted text\<close>

lemma fields_iff: "Inits k \<in> set tpl \<longleftrightarrow> k \<in> set (fields tpl)"
  by (induction tpl rule: fields.induct) auto

lemma lits_iff: "Lit l \<in> set tpl \<longleftrightarrow> l \<in> set (lits tpl)"
  by (induction tpl rule: lits.induct) auto

lemma native_fields: "fields native_template =
  [''name'', ''name'', ''image'', ''mask'', ''ori'', ''pos'', ''size'', ''color'', ''colorSpace'',
   ''opacity'', ''flipHoriz'', ''flipVert'', ''texture resolution'']"
  by (simp add: native_template_def)

lemma js_fields: "fields js_template =
  [''name'', ''name'', ''image'', ''mask'', ''ori'', ''pos'', ''size'', ''color'',
   ''opacity'', ''flipHoriz'', ''flipVert'', ''texture resolution'']"
  by (simp add: js_template_def)


lemma js_code_head:
  "\<exists>rest. js_code col s u ip p =
     js_piece col s [] (Inits ''name'')
     @ ('' = new visual.ImageStim({\<newline>  win : psychoJS.window,\<newline>  name : '' @ [CHR 0x27])
     @ js_piece col s [] (Inits ''name'') @ ''', ''
     @ js_unitsStr col (heap s ! u) @ ''\<newline>  image : '' @ rest"
  by (simp add: js_code_def js_template_def js_piece_def)


lemma native_lits_no_terminator:
  "list_all (\<lambda>l. CHR ''}'' \<notin> set l \<and> CHR '';'' \<notin> set l) (lits native_template)"
  by code_simp

lemma example_wf: "wf example"
  by (simp add: wf_def example_def)

lemma example_with_wf: "wf (example_with a v)"
  using example_wf by (simp add: wf_def example_with_def)

lemma Inr_emitted: "r = Inr s' \<Longrightarrow> buff s' = b @ [txt] \<Longrightarrow> emitted r = txt"
  by (simp add: emitted_def)

lemma not_isl_Inr: "\<not> isl r \<Longrightarrow> \<exists>s'. r = Inr s'"
  by (cases r) simp_all

lemma writeInitCodeJS_head:
  assumes "wf s" and "writeInitCodeJS col s = Inr s'"
  shows "\<exists>u nm rest. map_of (params s) ''units'' = Some u \<and>
     heap s' = heap s @ map js_obj (resolved_all col PsychoJS s) \<and>
     buff s' = buff s @
       [nm @ '' = new visual.ImageStim({\<newline>  win : psychoJS.window,\<newline>  name : '' @ [CHR 0x27]
        @ nm @ ''', '' @ js_unitsStr col (heap s ! u) @ ''\<newline>  image : '' @ rest]"
proof -
  from assms obtain u ip p where
    u: "map_of (params s) ''units'' = Some u" and
    s': "s' = s\<lparr>heap := heap s @ map js_obj (resolved_all col PsychoJS s),
               buff := buff s @ [js_code col s u ip p]\<rparr>"
    by (auto simp: writeInitCodeJS_Inr_iff)
  from js_code_head [of col s u ip p] obtain rest where
    "js_code col s u ip p =
       js_piece col s [] (Inits ''name'')
       @ ('' = new visual.ImageStim({\<newline>  win : psychoJS.window,\<newline>  name : '' @ [CHR 0x27])
       @ js_piece col s [] (Inits ''name'') @ ''', ''
       @ js_unitsStr col (heap s ! u) @ ''\<newline>  image : '' @ rest" by blast
  with u s' show ?thesis by auto
qed



text \<open>
  Claim C2, as the code has it. The Web emitter does not omit the units clause: when the
  value of \<open>self.params['units']\<close> equals \<open>'from exp settings'\<close> the statement carries
  the clause \<open>units : undefined, \<close> between \<open>name : '\<dots>', \<close> and the line break before
  \<open>image : \<close>; for any other value the clause is \<open>units : \<close>, the rendering of that
  Param, and \<open>, \<close>.
\<close>

theorem C2_web_units_clause:
  assumes "wf s" and "writeInitCodeJS col s = Inr s'"
  shows "\<exists>u nm rest.
     getitem (params s) ''units'' = Inr u \<and>
     buff s' = buff s @
       [nm @ '' = new visual.ImageStim({\<newline>  win : psychoJS.window,\<newline>  name : '' @ [CHR 0x27]
        @ nm @ ''', '' @ js_unitsStr col (heap s ! u) @ ''\<newline>  image : '' @ rest] \<and>
     (val (heap s ! u) = PyStr ''from exp settings'' \<longrightarrow>
        js_unitsStr col (heap s ! u) = ''units : undefined, '') \<and>
     (val (heap s ! u) \<noteq> PyStr ''from exp settings'' \<longrightarrow>
        js_unitsStr col (heap s ! u) = ''units : '' @ str_Param col (heap s ! u) @ '', '')"
proof -
  from writeInitCodeJS_head [OF assms] obtain u nm rest where
    u: "map_of (params s) ''units'' = Some u" and
    b: "buff s' = buff s @
       [nm @ '' = new visual.ImageStim({\<newline>  win : psychoJS.window,\<newline>  name : '' @ [CHR 0x27]
        @ nm @ ''', '' @ js_unitsStr col (heap s ! u) @ ''\<newline>  image : '' @ rest]"
    by blast
  have g: "getitem (params s) ''units'' = Inr u" using u by (simp add: getitem_Inr_iff)
  have c1: "val (heap s ! u) = PyStr ''from exp settings'' \<longrightarrow>
        js_unitsStr col (heap s ! u) = ''units : undefined, ''"
    by (simp add: js_unitsStr_def)
  have c2: "val (heap s ! u) \<noteq> PyStr ''from exp settings'' \<longrightarrow>
        js_unitsStr col (heap s ! u) = ''units : '' @ str_Param col (heap s ! u) @ '', ''"
    by (simp add: js_unitsStr_def)
  from g b c1 c2 show ?thesis by blast
qed

theorem C2_example_web_units_clause:
  "wf example \<and> \<not> isl (writeInitCodeJS spec_col example) \<and>
   val (heap example ! 1) = PyStr ''from exp settings'' \<and>
   (\<exists>nm rest. emitted (writeInitCodeJS spec_col example) =
      nm @ '' = new visual.ImageStim({\<newline>  win : psychoJS.window,\<newline>  name : '' @ [CHR 0x27]
      @ nm @ ''', units : undefined, \<newline>  image : '' @ rest)"
proof -
  have ok: "\<not> isl (writeInitCodeJS spec_col example)" by code_simp
  then obtain s' where s': "writeInitCodeJS spec_col example = Inr s'"
    using not_isl_Inr by blast
  from C2_web_units_clause [OF example_wf s'] obtain u nm rest where
    g: "getitem (params example) ''units'' = Inr u"
    and b: "buff s' = buff example @
       [nm @ '' = new visual.ImageStim({\<newline>  win : psychoJS.window,\<newline>  name : '' @ [CHR 0x27]
        @ nm @ ''', '' @ js_unitsStr spec_col (heap example ! u) @ ''\<newline>  image : '' @ rest]"
    and c: "val (heap example ! u) = PyStr ''from exp settings'' \<longrightarrow>
              js_unitsStr spec_col (heap example ! u) = ''units : undefined, ''"
    by blast
  from g have ua: "u = 1" by (simp add: getitem_def example_def)
  have v: "val (heap example ! 1) = PyStr ''from exp settings''"
    by (simp add: example_def mk_def)
  from c v ua have "js_unitsStr spec_col (heap example ! u) = ''units : undefined, ''" by simp
  with b have "buff s' = buff example @
      [nm @ '' = new visual.ImageStim({\<newline>  win : psychoJS.window,\<newline>  name : '' @ [CHR 0x27]
      @ nm @ ''', units : undefined, \<newline>  image : '' @ rest]"
    by simp
  from Inr_emitted [OF s' this] have "\<exists>nm rest. emitted (writeInitCodeJS spec_col example) =
      nm @ '' = new visual.ImageStim({\<newline>  win : psychoJS.window,\<newline>  name : '' @ [CHR 0x27]
      @ nm @ ''', units : undefined, \<newline>  image : '' @ rest" by blast
  with example_wf ok v show ?thesis by blast
qed

text \<open>
  Claim C2 as stated fails on the example, whose units value is the sentinel: the Web
  statement contains \<open>units : undefined, \<close>, while the Native statement for the same
  component has no units text.
\<close>

theorem C2_web_keeps_units_for_sentinel:
  "val (heap example ! 1) = PyStr ''from exp settings'' \<and>
   \<not> isl (writeInitCodeJS spec_col example) \<and>
   sublist ''units : undefined, '' (emitted (writeInitCodeJS spec_col example)) \<and>
   \<not> isl (writeInitCode spec_col example) \<and>
   \<not> sublist ''units'' (emitted (writeInitCode spec_col example))"
  by code_simp

text \<open>
  Claim C9. The Web units clause is built from the Param \<open>self.params['units']\<close>
  itself, before \<open>getInitVals\<close> and the loop run. For a units value in the set
  \<open>None\<close>, \<open>'None'\<close>, \<open>'none'\<close>, \<open>''\<close>, \<open>'sin'\<close> (none of which is the string
  \<open>'from exp settings'\<close>) the clause is \<open>units : \<close>, the rendering of that Param as it
  stands, and \<open>, \<close>; the Param is the same object with the same value after the call.
\<close>

theorem C9_web_units_not_coerced:
  assumes "wf s" and "writeInitCodeJS col s = Inr s'"
    and "getitem (params s) ''units'' = Inr u"
    and "val (heap s ! u) \<in> set js_sentinels"
  shows "\<exists>nm rest.
     buff s' = buff s @
       [nm @ '' = new visual.ImageStim({\<newline>  win : psychoJS.window,\<newline>  name : '' @ [CHR 0x27]
        @ nm @ ''', '' @ ''units : '' @ str_Param col (heap s ! u) @ '', ''
        @ ''\<newline>  image : '' @ rest] \<and>
     heap s' ! u = heap s ! u"
proof -
  from writeInitCodeJS_head [OF assms(1,2)] assms(3) obtain nm rest where
    h: "heap s' = heap s @ map js_obj (resolved_all col PsychoJS s)" and
    b: "buff s' = buff s @
       [nm @ '' = new visual.ImageStim({\<newline>  win : psychoJS.window,\<newline>  name : '' @ [CHR 0x27]
        @ nm @ ''', '' @ js_unitsStr col (heap s ! u) @ ''\<newline>  image : '' @ rest]"
    by (auto simp: getitem_Inr_iff)
  from assms(4) have "val (heap s ! u) \<noteq> PyStr ''from exp settings''"
    by (auto simp: js_sentinels_def)
  then have us: "js_unitsStr col (heap s ! u) = ''units : '' @ str_Param col (heap s ! u) @ '', ''"
    by (simp add: js_unitsStr_def)
  from assms(3) have "u < length (heap s)"
    using wf_addr [OF assms(1)] by (simp add: getitem_Inr_iff)
  with h have "heap s' ! u = heap s ! u" by (simp add: nth_append)
  with b us show ?thesis by auto
qed

theorem C9_example_units_none:
  "wf (example_with 1 (PyStr ''none'')) \<and>
   \<not> isl (writeInitCodeJS spec_col (example_with 1 (PyStr ''none''))) \<and>
   getitem (params (example_with 1 (PyStr ''none''))) ''units'' = Inr 1 \<and>
   val (heap (example_with 1 (PyStr ''none'')) ! 1) = PyStr ''none'' \<and>
   (\<exists>nm rest. emitted (writeInitCodeJS spec_col (example_with 1 (PyStr ''none''))) =
      nm @ '' = new visual.ImageStim({\<newline>  win : psychoJS.window,\<newline>  name : '' @ [CHR 0x27]
      @ nm @ ''', units : 'none', \<newline>  image : '' @ rest)"
proof -
  let ?d = "example_with 1 (PyStr ''none'')"
  have ok: "\<not> isl (writeInitCodeJS spec_col ?d)" by code_simp
  then obtain s' where s': "writeInitCodeJS spec_col ?d = Inr s'"
    using not_isl_Inr by blast
  have g: "getitem (params ?d) ''units'' = Inr 1"
    by (simp add: getitem_def example_def example_with_def)
  have v: "val (heap ?d ! 1) = PyStr ''none''"
    by (simp add: example_def example_with_def mk_def)
  then have sen: "val (heap ?d ! 1) \<in> set js_sentinels" by (simp add: js_sentinels_def)
  have us: "str_Param spec_col (heap ?d ! 1) = '''none'' @ [CHR 0x27]"
    by (simp add: example_def example_with_def mk_def spec_col_def spec_str_Param_def)
  from C9_web_units_not_coerced [OF example_with_wf s' g sen] obtain nm rest where
    "buff s' = buff ?d @
       [nm @ '' = new visual.ImageStim({\<newline>  win : psychoJS.window,\<newline>  name : '' @ [CHR 0x27]
        @ nm @ ''', '' @ ''units : '' @ str_Param spec_col (heap ?d ! 1) @ '', ''
        @ ''\<newline>  image : '' @ rest]" by blast
  then have "buff s' = buff ?d @
       [nm @ '' = new visual.ImageStim({\<newline>  win : psychoJS.window,\<newline>  name : '' @ [CHR 0x27]
        @ nm @ ''', units : 'none', \<newline>  image : '' @ rest]"
    using us by simp
  from Inr_emitted [OF s' this] have "\<exists>nm rest. emitted (writeInitCodeJS spec_col ?d) =
      nm @ '' = new visual.ImageStim({\<newline>  win : psychoJS.window,\<newline>  name : '' @ [CHR 0x27]
      @ nm @ ''', units : 'none', \<newline>  image : '' @ rest" by blast
  with example_with_wf ok g v show ?thesis by blast
qed

subsection \<open>Decimal digits, positions and the end of the statement\<close>

lemma digit_char_in: "d < 10 \<Longrightarrow> digit_char d \<in> set ''0123456789''"
  unfolding digit_char_def by (rule nth_mem) simp

lemma digit_char_inj: "a < 10 \<Longrightarrow> b < 10 \<Longrightarrow> digit_char a = digit_char b \<Longrightarrow> a = b"
proof -
  assume a: "a < 10" and b: "b < 10" and e: "digit_char a = digit_char b"
  have d: "distinct ''0123456789''" by simp
  have "a < length ''0123456789''" "b < length ''0123456789''" using a b by simp_all
  with d e show ?thesis unfolding digit_char_def by (simp only: nth_eq_iff_index_eq)
qed

lemma digits10_ne: "digits10 n \<noteq> []"
  by (subst digits10.simps) simp

lemma digits10_set: "set (digits10 n) \<subseteq> set ''0123456789''"
proof (induction n rule: digits10.induct)
  case (1 n)
  show ?case
  proof (cases "n < 10")
    case True
    have "digits10 n = [digit_char n]" using True by (subst digits10.simps) simp
    with digit_char_in [OF True] show ?thesis by simp
  next
    case False
    have e: "digits10 n = digits10 (n div 10) @ [digit_char (n mod 10)]"
      using False by (subst digits10.simps) simp
    have "n mod 10 < 10" by simp
    from digit_char_in [OF this] 1 [OF False] show ?thesis unfolding e by simp
  qed
qed

lemma digits10_small: "n < 10 \<Longrightarrow> digits10 n = [digit_char n]"
  by (subst digits10.simps) simp

lemma digits10_large: "\<not> n < 10 \<Longrightarrow> digits10 n = digits10 (n div 10) @ [digit_char (n mod 10)]"
  by (subst digits10.simps) simp

lemma digits10_inj: "digits10 m = digits10 n \<Longrightarrow> m = n"
proof (induction m arbitrary: n rule: digits10.induct)
  case (1 m)
  show ?case
  proof (cases "m < 10")
    case m: True
    show ?thesis
    proof (cases "n < 10")
      case True
      from "1.prems" have "digit_char m = digit_char n"
        unfolding digits10_small [OF m] digits10_small [OF True] by simp
      with m True show ?thesis by (rule digit_char_inj)
    next
      case False
      from "1.prems" have "[digit_char m] = digits10 (n div 10) @ [digit_char (n mod 10)]"
        unfolding digits10_small [OF m] digits10_large [OF False] .
      with digits10_ne [of "n div 10"] show ?thesis by simp
    qed
  next
    case m: False
    show ?thesis
    proof (cases "n < 10")
      case True
      from "1.prems" have "digits10 (m div 10) @ [digit_char (m mod 10)] = [digit_char n]"
        unfolding digits10_small [OF True] digits10_large [OF m] .
      with digits10_ne [of "m div 10"] show ?thesis by simp
    next
      case False
      from "1.prems" have "digits10 (m div 10) @ [digit_char (m mod 10)]
          = digits10 (n div 10) @ [digit_char (n mod 10)]"
        unfolding digits10_large [OF False] digits10_large [OF m] .
      then have eq: "digits10 (m div 10) = digits10 (n div 10)"
        and d: "digit_char (m mod 10) = digit_char (n mod 10)" by simp_all
      from "1.IH" [OF m eq] have q: "m div 10 = n div 10" .
      have "m mod 10 < 10" "n mod 10 < 10" by simp_all
      from digit_char_inj [OF this d] have r: "m mod 10 = n mod 10" .
      have "m = 10 * (m div 10) + m mod 10" by simp
      also have "\<dots> = 10 * (n div 10) + n mod 10" by (simp only: q r)
      also have "\<dots> = n" by simp
      finally show ?thesis .
    qed
  qed
qed

lemma fmt_1f_neg: "0 < p \<Longrightarrow> fmt_1f (- int p) = ''-'' @ digits10 p @ ''.0''"
  by (simp add: fmt_1f_def)

lemma fmt_1f_inj: "0 < p \<Longrightarrow> 0 < q \<Longrightarrow> fmt_1f (- int p) = fmt_1f (- int q) \<Longrightarrow> p = q"
  by (simp add: fmt_1f_neg digits10_inj)

lemma fmt_1f_chars: "set (fmt_1f n) \<subseteq> set ''-0123456789.''"
proof -
  have "set (fmt_1f n) \<subseteq> set ''-'' \<union> set (digits10 (nat \<bar>n\<bar>)) \<union> set ''.0''"
    unfolding fmt_1f_def by (cases "n < 0") auto
  also have "\<dots> \<subseteq> set ''-'' \<union> set ''0123456789'' \<union> set ''.0''"
    using digits10_set [of "nat \<bar>n\<bar>"] by blast
  also have "\<dots> \<subseteq> set ''-0123456789.''" by simp
  finally show ?thesis .
qed

lemma position_in_nth:
  "i < length xs \<Longrightarrow> xs ! i = c \<Longrightarrow> c \<notin> set (take i xs) \<Longrightarrow> position_in c xs = Some (int i + 1)"
proof (induction xs arbitrary: i)
  case Nil
  then show ?case by simp
next
  case (Cons x xs)
  show ?case
  proof (cases i)
    case 0
    with Cons.prems show ?thesis by simp
  next
    case (Suc j)
    with Cons.prems have "j < length xs" "xs ! j = c" "c \<notin> set (take j xs)" "x \<noteq> c"
      by auto
    with Cons.IH [of j] Suc show ?thesis by simp
  qed
qed

lemma position_in_distinct:
  assumes "distinct xs" and "0 < p" and "p \<le> length xs" and "xs ! (p - 1) = c"
  shows "position_in c xs = Some (int p)"
proof -
  have i: "p - 1 < length xs" using assms(2,3) by simp
  have "c \<notin> set (take (p - 1) xs)"
  proof
    assume "c \<in> set (take (p - 1) xs)"
    then obtain j where j: "j < p - 1" "xs ! j = c"
      by (auto simp: in_set_conv_nth)
    then have "j < length xs" using i by simp
    with assms(1) i have "(xs ! j = xs ! (p - 1)) = (j = p - 1)"
      by (simp only: nth_eq_iff_index_eq)
    with j assms(4) show False by simp
  qed
  from position_in_nth [OF i assms(4) this] assms(2) show ?thesis by simp
qed

lemma emitted_Inr: "emitted (Inr s') = last (buff s')"
  by (simp add: emitted_def)

lemma writeInitCode_tail:
  assumes "wf s" and "writeInitCode col s = Inr s'"
  shows "\<exists>u ip p body. position_in (self_id s) (routine s) = Some p \<and>
     map_of (params s) ''interpolate'' = Some ip \<and> map_of (params s) ''units'' = Some u \<and>
     py_format col (heap s') (fresh_inits s) (native_unitsStr col (heap s ! u)) native_template
       = Inr body \<and>
     body = concat (map (native_piece col s (native_unitsStr col (heap s ! u))) native_template) \<and>
     last (buff s') = body
       @ (if val (heap s ! ip) = PyStr ''linear'' then '', interpolate=True''
          else '', interpolate=False'')
       @ '', depth='' @ fmt_1f (- p) @ '')\<newline>''"
proof -
  from assms obtain u ip p where
    u: "map_of (params s) ''units'' = Some u" and
    all: "\<forall>k. Inits k \<in> set native_template \<longrightarrow> map_of (params s) k \<noteq> None" and
    ip: "map_of (params s) ''interpolate'' = Some ip" and
    p: "position_in (self_id s) (routine s) = Some p" and
    s': "s' = s\<lparr>heap := heap s @ resolved_all col PsychoPy s,
               buff := buff s @ [native_code col s u ip p]\<rparr>"
    by (auto simp: writeInitCode_Inr_iff)
  let ?us = "native_unitsStr col (heap s ! u)"
  have "piece_text col (heap s @ resolved_all col PsychoPy s) (fresh_inits s) ?us
          = native_piece col s ?us"
    by (rule ext) (rule native_piece_eq [OF assms(1)])
  with all have "py_format col (heap s') (fresh_inits s) ?us native_template
       = Inr (concat (map (native_piece col s ?us) native_template))"
    by (simp add: py_format_iff fresh_inits_None_iff s')
  with u ip p show ?thesis by (simp add: s' native_code_def)
qed

lemma writeInitCodeJS_tail:
  assumes "wf s" and "writeInitCodeJS col s = Inr s'"
  shows "\<exists>u ip p. position_in (self_id s) (routine s) = Some p \<and>
     map_of (params s) ''interpolate'' = Some ip \<and> map_of (params s) ''units'' = Some u \<and>
     last (buff s') =
       concat (map (js_piece col s (js_unitsStr col (heap s ! u))) js_template)
       @ (if val (heap s ! ip) = PyStr ''linear'' then '', interpolate : true''
          else '', interpolate : false'')
       @ '', depth : '' @ fmt_1f (- p) @ '' \<newline>});\<newline>''"
proof -
  from assms obtain u ip p where
    u: "map_of (params s) ''units'' = Some u" and
    ip: "map_of (params s) ''interpolate'' = Some ip" and
    p: "position_in (self_id s) (routine s) = Some p" and
    s': "s' = s\<lparr>heap := heap s @ map js_obj (resolved_all col PsychoJS s),
               buff := buff s @ [js_code col s u ip p]\<rparr>"
    by (auto simp: writeInitCodeJS_Inr_iff)
  then show ?thesis by (simp add: js_code_def)
qed

lemma example_second_wf: "wf example_second"
  using example_wf by (simp add: wf_def example_second_def)

text \<open>
  Claim C4. For a component that is the \<open>p\<close>-th of the distinct siblings of its routine
  (counting from 1), \<open>getPosInRoutine\<close> is \<open>p\<close>, and whenever an emitter returns, the
  text it appended ends with the depth \<open>-p\<close> printed by \<open>%.1f\<close>, a minus sign, the
  decimal digits of \<open>p\<close> and \<open>.0\<close>: \<open>, depth=-p.0)\<close> for the Native target and
  \<open>, depth : -p.0 \<close> followed by the closing line for the Web target, the same number
  for both. Another position gives another depth text.
\<close>

theorem C4_depth_is_minus_position:
  assumes "wf s" and "distinct (routine s)"
    and "0 < p" and "p \<le> length (routine s)" and "routine s ! (p - 1) = self_id s"
  shows "getPosInRoutine s = Inr (int p) \<and>
    (\<forall>s'. writeInitCode col s = Inr s' \<longrightarrow>
       suffix ('', depth=-'' @ digits10 p @ ''.0)\<newline>'') (last (buff s'))) \<and>
    (\<forall>s'. writeInitCodeJS col s = Inr s' \<longrightarrow>
       suffix ('', depth : -'' @ digits10 p @ ''.0 \<newline>});\<newline>'') (last (buff s'))) \<and>
    (\<forall>q. 0 < q \<and> q \<noteq> p \<longrightarrow> fmt_1f (- int q) \<noteq> fmt_1f (- int p))"
proof -
  from position_in_distinct [OF assms(2-5)]
  have pos: "position_in (self_id s) (routine s) = Some (int p)" .
  then have g: "getPosInRoutine s = Inr (int p)" by (simp add: getPosInRoutine_def)
  have f: "fmt_1f (- int p) = ''-'' @ digits10 p @ ''.0''" using assms(3) by (rule fmt_1f_neg)
  have n: "suffix ('', depth=-'' @ digits10 p @ ''.0)\<newline>'') (last (buff s'))"
    if "writeInitCode col s = Inr s'" for s'
  proof -
    from writeInitCode_tail [OF assms(1) that] pos obtain x where
      "last (buff s') = x @ '', depth='' @ fmt_1f (- int p) @ '')\<newline>''"
      by (metis append.assoc option.inject)
    then have "last (buff s') = x @ ('', depth=-'' @ digits10 p @ ''.0)\<newline>'')"
      by (simp add: f)
    then show ?thesis by (simp only: suffixI)
  qed
  have w: "suffix ('', depth : -'' @ digits10 p @ ''.0 \<newline>});\<newline>'') (last (buff s'))"
    if "writeInitCodeJS col s = Inr s'" for s'
  proof -
    from writeInitCodeJS_tail [OF assms(1) that] pos obtain x where
      "last (buff s') = x @ '', depth : '' @ fmt_1f (- int p) @ '' \<newline>});\<newline>''"
      by (metis append.assoc option.inject)
    then have "last (buff s') = x @ ('', depth : -'' @ digits10 p @ ''.0 \<newline>});\<newline>'')"
      by (simp add: f)
    then show ?thesis by (simp only: suffixI)
  qed
  have d: "fmt_1f (- int q) \<noteq> fmt_1f (- int p)" if "0 < q \<and> q \<noteq> p" for q
    using that assms(3) fmt_1f_inj [of q p] by blast
  from g n w d show ?thesis by blast
qed

theorem C4_example_depths:
  "distinct (routine example) \<and> routine example ! (1 - 1) = self_id example \<and>
   suffix '', depth=-1.0)\<newline>'' (emitted (writeInitCode spec_col example)) \<and>
   suffix '', depth : -1.0 \<newline>});\<newline>'' (emitted (writeInitCodeJS spec_col example)) \<and>
   routine example_second ! (2 - 1) = self_id example_second \<and>
   suffix '', depth=-2.0)\<newline>'' (emitted (writeInitCode spec_col example_second)) \<and>
   suffix '', depth : -2.0 \<newline>});\<newline>'' (emitted (writeInitCodeJS spec_col example_second)) \<and>
   fmt_1f (- int 2) \<noteq> fmt_1f (- int 1)"
proof -
  have d1: "digits10 (Suc 0) = ''1''" and d2: "digits10 2 = ''2''"
    by (simp_all add: digits10_small digit_char_def)
  have a: "distinct (routine example)" "0 < (1::nat)" "1 \<le> length (routine example)"
    "routine example ! (1 - 1) = self_id example"
    by (simp_all add: example_def)
  have b: "distinct (routine example_second)" "0 < (2::nat)" "2 \<le> length (routine example_second)"
    "routine example_second ! (2 - 1) = self_id example_second"
    by (simp_all add: example_def example_second_def)
  note first = C4_depth_is_minus_position [OF example_wf a, of spec_col]
  note second = C4_depth_is_minus_position [OF example_second_wf b, of spec_col]
  have "\<not> isl (writeInitCode spec_col example)" by code_simp
  then obtain n1 where n1: "writeInitCode spec_col example = Inr n1"
    using not_isl_Inr by blast
  with first have r1: "suffix '', depth=-1.0)\<newline>'' (emitted (writeInitCode spec_col example))"
    by (simp add: emitted_Inr d1)
  have "\<not> isl (writeInitCodeJS spec_col example)" by code_simp
  then obtain w1 where w1: "writeInitCodeJS spec_col example = Inr w1"
    using not_isl_Inr by blast
  with first have r2: "suffix '', depth : -1.0 \<newline>});\<newline>'' (emitted (writeInitCodeJS spec_col example))"
    by (simp add: emitted_Inr d1)
  have "\<not> isl (writeInitCode spec_col example_second)" by code_simp
  then obtain n2 where n2: "writeInitCode spec_col example_second = Inr n2"
    using not_isl_Inr by blast
  with second have r3: "suffix '', depth=-2.0)\<newline>'' (emitted (writeInitCode spec_col example_second))"
    by (simp add: emitted_Inr d2)
  have "\<not> isl (writeInitCodeJS spec_col example_second)" by code_simp
  then obtain w2 where w2: "writeInitCodeJS spec_col example_second = Inr w2"
    using not_isl_Inr by blast
  with second have r4: "suffix '', depth : -2.0 \<newline>});\<newline>'' (emitted (writeInitCodeJS spec_col example_second))"
    by (simp add: emitted_Inr d2)
  from first have "\<forall>q. 0 < q \<and> q \<noteq> 1 \<longrightarrow> fmt_1f (- int q) \<noteq> fmt_1f (- int 1)"
    by blast
  then have "0 < (2::nat) \<and> (2::nat) \<noteq> 1 \<longrightarrow> fmt_1f (- int 2) \<noteq> fmt_1f (- int 1)"
    by (rule spec)
  then have r5: "fmt_1f (- int 2) \<noteq> fmt_1f (- int 1)" by simp
  from a(1,4) b(4) r1 r2 r3 r4 r5 show ?thesis by blast
qed

text \<open>
  Claim C8. Whenever \<open>writeInitCodeJS\<close> returns, the text it appended ends with a line
  break and the closing brace, parenthesis and semicolon \<open>});\<close>. Whenever
  \<open>writeInitCode\<close> returns, its text is the filled format string followed by a tail that
  ends with \<open>.0)\<close> and a line break and contains neither a closing brace nor a
  semicolon; the text does not end with \<open>});\<close>, and no literal text of the Native format
  string contains a closing brace or a semicolon. The Native statement is closed by its
  parenthesis alone.
\<close>

theorem C8_statement_terminator:
  assumes "wf s"
  shows "(\<forall>s'. writeInitCodeJS col s = Inr s' \<longrightarrow> suffix '' \<newline>});\<newline>'' (last (buff s'))) \<and>
    (\<forall>s'. writeInitCode col s = Inr s' \<longrightarrow>
       (\<exists>h inits us code tail.
          py_format col h inits us native_template = Inr code \<and>
          last (buff s') = code @ tail \<and> suffix ''.0)\<newline>'' tail \<and>
          CHR ''}'' \<notin> set tail \<and> CHR '';'' \<notin> set tail) \<and>
       \<not> suffix ''});\<newline>'' (last (buff s'))) \<and>
    (\<forall>l. Lit l \<in> set native_template \<longrightarrow> CHR ''}'' \<notin> set l \<and> CHR '';'' \<notin> set l)"
proof -
  have w: "suffix '' \<newline>});\<newline>'' (last (buff s'))" if "writeInitCodeJS col s = Inr s'" for s'
  proof -
    from writeInitCodeJS_tail [OF assms that] obtain x p where
      "last (buff s') = x @ '', depth : '' @ fmt_1f (- p) @ '' \<newline>});\<newline>''"
      by (metis append.assoc)
    then have "last (buff s') = (x @ '', depth : '' @ fmt_1f (- p)) @ '' \<newline>});\<newline>''"
      by simp
    then show ?thesis by (simp only: suffixI)
  qed
  have n: "(\<exists>h inits us code tail.
          py_format col h inits us native_template = Inr code \<and>
          last (buff s') = code @ tail \<and> suffix ''.0)\<newline>'' tail \<and>
          CHR ''}'' \<notin> set tail \<and> CHR '';'' \<notin> set tail) \<and>
       \<not> suffix ''});\<newline>'' (last (buff s'))" if "writeInitCode col s = Inr s'" for s'
  proof -
    from writeInitCode_tail [OF assms that] obtain u ip p body where
      f: "py_format col (heap s') (fresh_inits s) (native_unitsStr col (heap s ! u)) native_template
            = Inr body" and
      l: "last (buff s') = body
       @ (if val (heap s ! ip) = PyStr ''linear'' then '', interpolate=True''
          else '', interpolate=False'')
       @ '', depth='' @ fmt_1f (- p) @ '')\<newline>''" by blast
    let ?tail = "(if val (heap s ! ip) = PyStr ''linear'' then '', interpolate=True''
          else '', interpolate=False'') @ '', depth='' @ fmt_1f (- p) @ '')\<newline>''"
    have e: "fmt_1f (- p) = ((if - p < 0 then ''-'' else []) @ digits10 (nat \<bar>- p\<bar>)) @ ''.0''"
      by (simp add: fmt_1f_def)
    have t1: "?tail = ((if val (heap s ! ip) = PyStr ''linear'' then '', interpolate=True''
          else '', interpolate=False'') @ '', depth=''
          @ (if - p < 0 then ''-'' else []) @ digits10 (nat \<bar>- p\<bar>)) @ ''.0)\<newline>''"
      unfolding e by simp
    have s1: "suffix ''.0)\<newline>'' ?tail" by (subst t1) (simp only: suffixI)
    have c: "CHR ''}'' \<notin> set (fmt_1f (- p)) \<and> CHR '';'' \<notin> set (fmt_1f (- p))"
      using fmt_1f_chars [of "- p"] by auto
    then have c1: "CHR ''}'' \<notin> set ?tail" and c2: "CHR '';'' \<notin> set ?tail" by auto
    have l2: "last (buff s') = body @ ?tail" using l by simp
    have "last (buff s') = (body @ (if val (heap s ! ip) = PyStr ''linear'' then '', interpolate=True''
          else '', interpolate=False'') @ '', depth=''
          @ (if - p < 0 then ''-'' else []) @ digits10 (nat \<bar>- p\<bar>)) @ ''.0)\<newline>''"
      unfolding l e by simp
    then have ns: "\<not> suffix ''});\<newline>'' (last (buff s'))"
      by (simp add: suffix_def)
    from f l2 s1 c1 c2 ns show ?thesis by blast
  qed
  have l: "\<forall>l. Lit l \<in> set native_template \<longrightarrow> CHR ''}'' \<notin> set l \<and> CHR '';'' \<notin> set l"
    using native_lits_no_terminator by (simp add: lits_iff list_all_iff)
  from w n l show ?thesis by blast
qed

theorem C8_example_terminators:
  "wf example \<and>
   suffix '' \<newline>});\<newline>'' (emitted (writeInitCodeJS spec_col example)) \<and>
   suffix ''.0)\<newline>'' (emitted (writeInitCode spec_col example)) \<and>
   \<not> suffix ''});\<newline>'' (emitted (writeInitCode spec_col example))"
proof -
  note c8 = C8_statement_terminator [OF example_wf, of spec_col]
  have "\<not> isl (writeInitCodeJS spec_col example)" by code_simp
  then obtain w1 where w1: "writeInitCodeJS spec_col example = Inr w1"
    using not_isl_Inr by blast
  from c8 w1 have "suffix '' \<newline>});\<newline>'' (last (buff w1))" by blast
  then have r1: "suffix '' \<newline>});\<newline>'' (emitted (writeInitCodeJS spec_col example))"
    by (simp only: w1 emitted_Inr)
  have "\<not> isl (writeInitCode spec_col example)" by code_simp
  then obtain n1 where n1: "writeInitCode spec_col example = Inr n1"
    using not_isl_Inr by blast
  from c8 n1 obtain code tail where
    l: "last (buff n1) = code @ tail" and t: "suffix ''.0)\<newline>'' tail"
    and ns: "\<not> suffix ''});\<newline>'' (last (buff n1))" by blast
  from t have "suffix ''.0)\<newline>'' (code @ tail)" by (rule suffix_appendI)
  with l have r2: "suffix ''.0)\<newline>'' (emitted (writeInitCode spec_col example))"
    by (simp only: n1 emitted_Inr)
  have "emitted (writeInitCode spec_col example) = last (buff n1)"
    by (simp only: n1 emitted_Inr)
  with ns have r3: "\<not> suffix ''});\<newline>'' (emitted (writeInitCode spec_col example))"
    by (simp only:) simp
  from example_wf r1 r2 r3 show ?thesis by blast
qed

subsection \<open>One pass, for either target\<close>

lemma resolved_agree:
  assumes "params s2 = params s"
    and "\<And>a. map_of (params s) k = Some a \<Longrightarrow> heap s2 ! a = heap s ! a"
  shows "resolved col t s2 k = resolved col t s k"
  using assms by (cases "map_of (params s) k") (simp_all add: resolved_def)

lemma native_piece_agree:
  assumes "params s2 = params s"
    and "\<forall>k a. k \<in> set (fields tpl) \<longrightarrow> map_of (params s) k = Some a \<longrightarrow> heap s2 ! a = heap s ! a"
  shows "map (native_piece col s2 us) tpl = map (native_piece col s us) tpl"
proof (rule map_cong [OF refl])
  fix pc assume pc: "pc \<in> set tpl"
  show "native_piece col s2 us pc = native_piece col s us pc"
  proof (cases pc)
    case (Inits k)
    with pc have "k \<in> set (fields tpl)" by (simp add: fields_iff)
    with assms have "resolved col PsychoPy s2 k = resolved col PsychoPy s k"
      by (intro resolved_agree) auto
    then show ?thesis by (simp add: Inits native_piece_def)
  qed (simp_all add: native_piece_def)
qed

lemma js_piece_agree:
  assumes "params s2 = params s"
    and "\<forall>k a. k \<in> set (fields tpl) \<longrightarrow> map_of (params s) k = Some a \<longrightarrow> heap s2 ! a = heap s ! a"
  shows "map (js_piece col s2 us) tpl = map (js_piece col s us) tpl"
proof (rule map_cong [OF refl])
  fix pc assume pc: "pc \<in> set tpl"
  show "js_piece col s2 us pc = js_piece col s us pc"
  proof (cases pc)
    case (Inits k)
    with pc have "k \<in> set (fields tpl)" by (simp add: fields_iff)
    with assms have "resolved col PsychoJS s2 k = resolved col PsychoJS s k"
      by (intro resolved_agree) auto
    then show ?thesis by (simp add: Inits js_piece_def)
  qed (simp_all add: js_piece_def)
qed

lemma generate_Inr_iff:
  assumes "wf s"
  shows "generate col t s = Inr s' \<longleftrightarrow>
    (\<exists>u ip p. map_of (params s) ''units'' = Some u \<and>
       (\<forall>k \<in> set (fields (template_of t)). map_of (params s) k \<noteq> None) \<and>
       map_of (params s) ''interpolate'' = Some ip \<and>
       position_in (self_id s) (routine s) = Some p \<and>
       s' = s\<lparr>heap := heap s @ new_objects col t s,
              buff := buff s @ [body_text col t s u @ interpolate_text t (val (heap s ! ip))
                 @ depth_text t p]\<rparr>)"
proof (cases t)
  case PsychoPy
  show ?thesis
    unfolding PsychoPy generate_def
    by (simp add: writeInitCode_Inr_iff [OF assms] fields_iff native_code_def interpolate_text_def
        body_text_def depth_text_def template_of_def new_objects_def Ball_def split del: if_split)
next
  case PsychoJS
  show ?thesis
    unfolding PsychoJS generate_def
    by (simp add: writeInitCodeJS_Inr_iff [OF assms] fields_iff js_code_def interpolate_text_def
        body_text_def depth_text_def template_of_def new_objects_def Ball_def split del: if_split)
qed

lemma template_fields_not_interpolate: "''interpolate'' \<notin> set (fields (template_of t))"
  by (cases t) (simp_all add: template_of_def native_fields js_fields)

lemma agree_on_set:
  assumes "\<forall>k a. k \<noteq> x \<and> P k a \<longrightarrow> Q a" and "x \<notin> S"
  shows "\<forall>k a. k \<in> S \<longrightarrow> P k a \<longrightarrow> Q a"
  using assms by auto

lemma body_text_agree:
  assumes "params s2 = params s"
    and "\<forall>k a. k \<noteq> ''interpolate'' \<and> map_of (params s) k = Some a \<longrightarrow> heap s2 ! a = heap s ! a"
    and "map_of (params s) ''units'' = Some u"
  shows "body_text col t s2 u = body_text col t s u"
proof -
  have f: "\<forall>k a. k \<in> set (fields (template_of t)) \<longrightarrow> map_of (params s) k = Some a \<longrightarrow>
             heap s2 ! a = heap s ! a"
    by (rule agree_on_set [OF assms(2) template_fields_not_interpolate])
  have u: "heap s2 ! u = heap s ! u"
    using assms(2) [rule_format, of "''units''" u] assms(3) by simp
  show ?thesis
  proof (cases t)
    case PsychoPy
    have "template_of t = native_template" by (simp add: template_of_def PsychoPy)
    with f have "\<forall>k a. k \<in> set (fields native_template) \<longrightarrow> map_of (params s) k = Some a \<longrightarrow>
             heap s2 ! a = heap s ! a" by (simp only:)
    from native_piece_agree [OF assms(1) this]
    have m: "map (native_piece col s2 us) native_template
               = map (native_piece col s us) native_template" for us .
    show ?thesis unfolding body_text_def PsychoPy u by (simp only: m target.case)
  next
    case PsychoJS
    have "template_of t = js_template" by (simp add: template_of_def PsychoJS)
    with f have "\<forall>k a. k \<in> set (fields js_template) \<longrightarrow> map_of (params s) k = Some a \<longrightarrow>
             heap s2 ! a = heap s ! a" by (simp only:)
    from js_piece_agree [OF assms(1) this]
    have m: "map (js_piece col s2 us) js_template
               = map (js_piece col s us) js_template" for us .
    show ?thesis unfolding body_text_def PsychoJS u by (simp only: m target.case)
  qed
qed

lemma example_nearest_same:
  "same_but_interpolate example (example_with 15 (PyStr ''nearest''))"
proof -
  have "heap (example_with 15 (PyStr ''nearest'')) ! a = heap example ! a"
    if "k \<noteq> ''interpolate''" "map_of (params example) k = Some a" for k a
  proof -
    from that(2) have "(k, a) \<in> set (params example)" by (rule map_of_SomeD)
    with that(1) have "a \<noteq> 15" by (auto simp: example_def)
    then show ?thesis by (simp add: example_with_def)
  qed
  then show ?thesis
    unfolding same_but_interpolate_def
    using example_with_wf [of 15 "PyStr ''nearest''"] by (auto simp: example_with_def)
qed

lemma example_interpolate:
  "getitem (params example) ''interpolate'' = Inr ip \<Longrightarrow> ip = 15"
  by (simp add: getitem_def example_def)

lemma example_interpolate_vals:
  "val (heap example ! 15) = PyStr ''linear''"
  "val (heap (example_with 15 (PyStr ''nearest'')) ! 15) = PyStr ''nearest''"
  by (simp_all add: example_def example_with_def mk_def)

text \<open>
  Claim C5. Whenever a generation pass returns, the text it appended is a body, the
  literal for \<open>interpolate\<close> and a tail. The literal is the target's true literal when
  the value of \<open>self.params['interpolate']\<close> is the string \<open>'linear'\<close> and its false
  literal for every other value; it is computed from that value alone, not from
  \<open>inits\<close>. For every state that differs at most in the Param of \<open>interpolate\<close> the
  pass returns as well, with the same body and the same tail.
\<close>

theorem C5_interpolate_literal:
  assumes "wf s" and "generate col t s = Inr s'"
  shows "\<exists>ip body tail.
     getitem (params s) ''interpolate'' = Inr ip \<and>
     buff s' = buff s @ [body @ interpolate_text t (val (heap s ! ip)) @ tail] \<and>
     (\<forall>s2. same_but_interpolate s s2 \<longrightarrow>
        (\<exists>s2'. generate col t s2 = Inr s2' \<and>
           buff s2' = buff s2 @ [body @ interpolate_text t (val (heap s2 ! ip)) @ tail]))"
proof -
  from assms(2) obtain u ip p where
    u: "map_of (params s) ''units'' = Some u" and
    all: "\<forall>k \<in> set (fields (template_of t)). map_of (params s) k \<noteq> None" and
    ip: "map_of (params s) ''interpolate'' = Some ip" and
    p: "position_in (self_id s) (routine s) = Some p" and
    s': "s' = s\<lparr>heap := heap s @ new_objects col t s,
              buff := buff s @ [body_text col t s u @ interpolate_text t (val (heap s ! ip))
                 @ depth_text t p]\<rparr>"
    unfolding generate_Inr_iff [OF assms(1)] by blast
  have g: "getitem (params s) ''interpolate'' = Inr ip" using ip by (simp add: getitem_Inr_iff)
  have b: "buff s' = buff s @ [body_text col t s u @ interpolate_text t (val (heap s ! ip))
                 @ depth_text t p]" by (simp add: s')
  have other: "\<exists>s2'. generate col t s2 = Inr s2' \<and>
           buff s2' = buff s2 @ [body_text col t s u @ interpolate_text t (val (heap s2 ! ip))
              @ depth_text t p]"
    if "same_but_interpolate s s2" for s2
  proof -
    from that have w2: "wf s2" and ps: "params s2 = params s" and r: "routine s2 = routine s"
      and i: "self_id s2 = self_id s"
      and ag: "\<forall>k a. k \<noteq> ''interpolate'' \<and> map_of (params s) k = Some a \<longrightarrow>
                 heap s2 ! a = heap s ! a"
      by (simp_all add: same_but_interpolate_def)
    have bt: "body_text col t s2 u = body_text col t s u"
      by (rule body_text_agree [OF ps ag u])
    let ?s2' = "s2\<lparr>heap := heap s2 @ new_objects col t s2,
              buff := buff s2 @ [body_text col t s2 u @ interpolate_text t (val (heap s2 ! ip))
                 @ depth_text t p]\<rparr>"
    have "generate col t s2 = Inr ?s2'"
      unfolding generate_Inr_iff [OF w2] ps r i using u all ip p by blast
    moreover have "buff ?s2' = buff s2 @ [body_text col t s u
        @ interpolate_text t (val (heap s2 ! ip)) @ depth_text t p]"
      by (simp add: bt)
    ultimately show ?thesis by blast
  qed
  from g b other show ?thesis by blast
qed

theorem C5_example_linear_nearest:
  "wf example \<and> same_but_interpolate example (example_with 15 (PyStr ''nearest'')) \<and>
   (\<exists>body tail.
      emitted (generate spec_col PsychoPy example) = body @ '', interpolate=True'' @ tail \<and>
      emitted (generate spec_col PsychoPy (example_with 15 (PyStr ''nearest'')))
        = body @ '', interpolate=False'' @ tail) \<and>
   (\<exists>body tail.
      emitted (generate spec_col PsychoJS example) = body @ '', interpolate : true'' @ tail \<and>
      emitted (generate spec_col PsychoJS (example_with 15 (PyStr ''nearest'')))
        = body @ '', interpolate : false'' @ tail)"
proof -
  let ?n = "example_with 15 (PyStr ''nearest'')"
  have both: "\<exists>body tail.
     emitted (generate spec_col t example)
       = body @ interpolate_text t (PyStr ''linear'') @ tail \<and>
     emitted (generate spec_col t ?n)
       = body @ interpolate_text t (PyStr ''nearest'') @ tail"
    if ok: "\<not> isl (generate spec_col t example)" for t
  proof -
    from ok obtain s' where s': "generate spec_col t example = Inr s'"
      using not_isl_Inr by blast
    from C5_interpolate_literal [OF example_wf s'] obtain ip body tail where
      g: "getitem (params example) ''interpolate'' = Inr ip" and
      b: "buff s' = buff example @ [body @ interpolate_text t (val (heap example ! ip)) @ tail]" and
      o: "\<forall>s2. same_but_interpolate example s2 \<longrightarrow>
        (\<exists>s2'. generate spec_col t s2 = Inr s2' \<and>
           buff s2' = buff s2 @ [body @ interpolate_text t (val (heap s2 ! ip)) @ tail])"
      by blast
    from g have ip: "ip = 15" by (rule example_interpolate)
    from o example_nearest_same obtain s2' where
      s2': "generate spec_col t ?n = Inr s2'" and
      b2: "buff s2' = buff ?n @ [body @ interpolate_text t (val (heap ?n ! ip)) @ tail]"
      by blast
    from Inr_emitted [OF s' b] have
      e1: "emitted (generate spec_col t example)
             = body @ interpolate_text t (PyStr ''linear'') @ tail"
      by (simp only: ip example_interpolate_vals)
    from Inr_emitted [OF s2' b2] have
      e2: "emitted (generate spec_col t ?n)
             = body @ interpolate_text t (PyStr ''nearest'') @ tail"
      by (simp only: ip example_interpolate_vals)
    from e1 e2 show ?thesis by blast
  qed
  have "\<not> isl (generate spec_col PsychoPy example)" by code_simp
  from both [OF this] have py: "\<exists>body tail.
      emitted (generate spec_col PsychoPy example) = body @ '', interpolate=True'' @ tail \<and>
      emitted (generate spec_col PsychoPy ?n) = body @ '', interpolate=False'' @ tail"
    by (simp add: interpolate_text_def)
  have "\<not> isl (generate spec_col PsychoJS example)" by code_simp
  from both [OF this] have js: "\<exists>body tail.
      emitted (generate spec_col PsychoJS example) = body @ '', interpolate : true'' @ tail \<and>
      emitted (generate spec_col PsychoJS ?n) = body @ '', interpolate : false'' @ tail"
    by (simp add: interpolate_text_def)
  from example_wf example_nearest_same py js show ?thesis by blast
qed

subsection \<open>The coercion loop inside the Web emitter\<close>

text \<open>
  The two theorems of this subsection are about \<open>writeInitCodeJS\<close> as a whole. The text
  it appends is its format string with every piece replaced by a text (\<open>f\<close>): a literal
  by itself, a field \<open>{inits[k]}\<close> by what the loop and \<open>Param.__str__\<close> make of the
  resolved Param of the name \<open>k\<close>.
\<close>

lemma resolved_all_index:
  assumes "map_of (params s) k = Some a"
  shows "\<exists>i < length (params s). resolved_all col t s ! i = resolve col t k (heap s ! a)"
proof -
  from assms have "(k, a) \<in> set (params s)" by (rule map_of_SomeD)
  then obtain i where "i < length (params s)" "params s ! i = (k, a)"
    by (auto simp: in_set_conv_nth)
  then show ?thesis by (auto simp: resolved_all_def)
qed

lemma writeInitCodeJS_pieces:
  assumes "wf s" and "writeInitCodeJS col s = Inr s'"
  shows "\<exists>u tail. map_of (params s) ''units'' = Some u \<and>
     heap s' = heap s @ map js_obj (resolved_all col PsychoJS s) \<and>
     buff s' = buff s @
       [concat (map (js_piece col s (js_unitsStr col (heap s ! u))) js_template) @ tail]"
proof -
  from assms obtain u ip p where
    u: "map_of (params s) ''units'' = Some u" and
    s': "s' = s\<lparr>heap := heap s @ map js_obj (resolved_all col PsychoJS s),
               buff := buff s @ [js_code col s u ip p]\<rparr>"
    by (auto simp: writeInitCodeJS_Inr_iff)
  have "buff s' = buff s @
       [concat (map (js_piece col s (js_unitsStr col (heap s ! u))) js_template)
        @ ((if val (heap s ! ip) = PyStr ''linear'' then '', interpolate : true''
            else '', interpolate : false'')
           @ '', depth : '' @ fmt_1f (- p) @ '' \<newline>});\<newline>'')]"
    by (simp add: s' js_code_def)
  with u s' show ?thesis by auto
qed

lemma js_piece_field:
  assumes "map_of (params s) k = Some a"
  shows "js_piece col s us (Inits k) = js_text col (resolve col PsychoJS k (heap s ! a))"
  using assms by (simp add: js_piece_def resolved_def)

lemma js_new_object:
  assumes "wf s" and "map_of (params s) k = Some a"
    and "heap s' = heap s @ map js_obj (resolved_all col PsychoJS s)"
  shows "\<exists>b. length (heap s) \<le> b \<and> b < length (heap s') \<and>
           heap s' ! b = js_obj (resolve col PsychoJS k (heap s ! a))"
proof -
  from resolved_all_index [OF assms(2), of col PsychoJS] obtain i where
    i: "i < length (params s)"
       "resolved_all col PsychoJS s ! i = resolve col PsychoJS k (heap s ! a)" by blast
  have len: "length (resolved_all col PsychoJS s) = length (params s)"
    by (simp add: resolved_all_def)
  have "heap s' ! (length (heap s) + i) = js_obj (resolve col PsychoJS k (heap s ! a))"
    using i by (simp add: assms(3) nth_append len)
  moreover have "length (heap s) + i < length (heap s')" using i by (simp add: assms(3) len)
  ultimately show ?thesis by (intro exI [of _ "length (heap s) + i"]) simp
qed

lemma spec_col_keeps_sentinels:
  "\<forall>k p. val p \<in> set js_sentinels \<longrightarrow> val (resolve spec_col PsychoJS k p) \<in> set js_sentinels"
  by (simp add: spec_col_def spec_resolve_def)

lemma spec_col_code_unquoted:
  "\<forall>p x. valType p = ''code'' \<and> val p = PyStr x \<longrightarrow> str_Param spec_col p = x"
  by (simp add: spec_col_def spec_str_Param_def)



text \<open>
  Claim C1. Let \<open>getInitVals\<close> leave a value of the set \<open>None\<close>, \<open>'None'\<close>, \<open>'none'\<close>,
  \<open>''\<close>, \<open>'sin'\<close> in that set, and let \<open>Param.__str__\<close> print a string of type \<open>code\<close>
  unquoted (section 4.2). Then, whenever \<open>writeInitCodeJS\<close> returns, for every parameter
  of the descriptor whose raw value \<open>self.params[k].val\<close> lies in that set, the text
  substituted for \<open>{inits[k]}\<close> in the construction statement is exactly \<open>undefined\<close>,
  and it is the rendering of a Param object created by this call whose value is the
  string \<open>undefined\<close> and whose type is \<open>code\<close>.
\<close>

theorem C1_sentinel_rendered_undefined:
  assumes "wf s" and "writeInitCodeJS col s = Inr s'"
    and "\<forall>k p. val p \<in> set js_sentinels \<longrightarrow> val (resolve col PsychoJS k p) \<in> set js_sentinels"
    and "\<forall>p x. valType p = ''code'' \<and> val p = PyStr x \<longrightarrow> str_Param col p = x"
  shows "\<exists>f tail. buff s' = buff s @ [concat (map f js_template) @ tail] \<and>
     (\<forall>l. f (Lit l) = l) \<and>
     (\<forall>k a. getitem (params s) k = Inr a \<and> val (heap s ! a) \<in> set js_sentinels \<longrightarrow>
        f (Inits k) = ''undefined'' \<and>
        (\<exists>b. length (heap s) \<le> b \<and> b < length (heap s') \<and>
              f (Inits k) = str_Param col (heap s' ! b) \<and>
              val (heap s' ! b) = PyStr ''undefined'' \<and> valType (heap s' ! b) = ''code''))"
proof -
  from writeInitCodeJS_pieces [OF assms(1,2)] obtain u tail where
    h: "heap s' = heap s @ map js_obj (resolved_all col PsychoJS s)" and
    b: "buff s' = buff s @
       [concat (map (js_piece col s (js_unitsStr col (heap s ! u))) js_template) @ tail]"
    by blast
  let ?f = "js_piece col s (js_unitsStr col (heap s ! u))"
  have lit: "\<forall>l. ?f (Lit l) = l" by (simp add: js_piece_def)
  have fld: "?f (Inits k) = ''undefined'' \<and>
        (\<exists>b. length (heap s) \<le> b \<and> b < length (heap s') \<and>
              ?f (Inits k) = str_Param col (heap s' ! b) \<and>
              val (heap s' ! b) = PyStr ''undefined'' \<and> valType (heap s' ! b) = ''code'')"
    if g: "getitem (params s) k = Inr a" and v: "val (heap s ! a) \<in> set js_sentinels" for k a
  proof -
    from g have m: "map_of (params s) k = Some a" by (simp add: getitem_Inr_iff)
    let ?p = "resolve col PsychoJS k (heap s ! a)"
    from assms(3) v have sen: "val ?p \<in> set js_sentinels" by blast
    then have nb: "val ?p \<noteq> PyBool True" "val ?p \<noteq> PyBool False"
      by (auto simp: js_sentinels_def)
    from sen nb have o: "js_obj ?p = ?p\<lparr>valType := ''code'', val := PyStr ''undefined''\<rparr>"
      by (simp add: js_obj_def)
    have t: "js_text col ?p = str_Param col (js_obj ?p)" using nb by (simp add: js_text_def)
    have "valType (js_obj ?p) = ''code'' \<and> val (js_obj ?p) = PyStr ''undefined''"
      by (simp add: o)
    with assms(4) have u: "str_Param col (js_obj ?p) = ''undefined''" by blast
    have f1: "?f (Inits k) = ''undefined''" by (simp only: js_piece_field [OF m] t u)
    from js_new_object [OF assms(1) m h] obtain b where
      b: "length (heap s) \<le> b" "b < length (heap s')" "heap s' ! b = js_obj ?p" by blast
    have "?f (Inits k) = str_Param col (heap s' ! b)" by (simp only: f1 b(3) u)
    moreover have "val (heap s' ! b) = PyStr ''undefined''" "valType (heap s' ! b) = ''code''"
      by (simp_all add: b(3) o)
    ultimately show ?thesis using f1 b(1,2) by blast
  qed
  show ?thesis
    by (rule exI [of _ ?f], rule exI [of _ tail]) (use b lit fld in blast)
qed

theorem C1_example_mask_undefined:
  "wf example \<and> \<not> isl (writeInitCodeJS spec_col example) \<and>
   getitem (params example) ''mask'' = Inr 13 \<and> val (heap example ! 13) = PyStr ''None'' \<and>
   (\<exists>pre post. emitted (writeInitCodeJS spec_col example)
      = pre @ '', mask : undefined,\<newline>  ori : '' @ post)"
proof -
  have ok: "\<not> isl (writeInitCodeJS spec_col example)" by code_simp
  then obtain s' where s': "writeInitCodeJS spec_col example = Inr s'"
    using not_isl_Inr by blast
  have g: "getitem (params example) ''mask'' = Inr 13"
    by (simp add: getitem_def example_def)
  have v: "val (heap example ! 13) = PyStr ''None''"
    by (simp add: example_def mk_def)
  then have sen: "val (heap example ! 13) \<in> set js_sentinels" by (simp add: js_sentinels_def)
  from C1_sentinel_rendered_undefined
    [OF example_wf s' spec_col_keeps_sentinels spec_col_code_unquoted]
  obtain f tail where
    b: "buff s' = buff example @ [concat (map f js_template) @ tail]" and
    lit: "\<forall>l. f (Lit l) = l" and
    fld: "\<forall>k a. getitem (params example) k = Inr a \<and> val (heap example ! a) \<in> set js_sentinels \<longrightarrow>
            f (Inits k) = ''undefined'' \<and>
            (\<exists>b. length (heap example) \<le> b \<and> b < length (heap s') \<and>
              f (Inits k) = str_Param spec_col (heap s' ! b) \<and>
              val (heap s' ! b) = PyStr ''undefined'' \<and> valType (heap s' ! b) = ''code'')"
    by blast
  from fld [rule_format, of "''mask''" 13] g sen have m: "f (Inits ''mask'') = ''undefined''"
    by simp
  have l: "f (Lit l) = l" for l using lit by simp
  let ?pre = "f (Inits ''name'')
     @ ('' = new visual.ImageStim({\<newline>  win : psychoJS.window,\<newline>  name : '' @ [CHR 0x27])
     @ f (Inits ''name'') @ ''', '' @ f Units @ ''\<newline>  image : '' @ f (Inits ''image'')"
  let ?post = "f (Inits ''ori'') @ '', pos : '' @ f (Inits ''pos'')
     @ '', size : '' @ f (Inits ''size'')
     @ '',\<newline>  color : new util.Color('' @ f (Inits ''color'')
     @ ''), opacity : '' @ f (Inits ''opacity'')
     @ '',\<newline>  flipHoriz : '' @ f (Inits ''flipHoriz'') @ '', flipVert : '' @ f (Inits ''flipVert'')
     @ '',\<newline>  texRes : '' @ f (Inits ''texture resolution'') @ tail"
  have "concat (map f js_template) @ tail = ?pre @ '', mask : undefined,\<newline>  ori : '' @ ?post"
    by (simp add: js_template_def l m)
  with b have "buff s' = buff example @ [?pre @ '', mask : undefined,\<newline>  ori : '' @ ?post]"
    by (simp only:)
  from Inr_emitted [OF s' this] have "\<exists>pre post. emitted (writeInitCodeJS spec_col example)
      = pre @ '', mask : undefined,\<newline>  ori : '' @ post" by blast
  with example_wf ok g v show ?thesis by blast
qed



subsection \<open>Two passes over the same descriptor\<close>

lemma wf_extend:
  assumes "wf s"
  shows "wf (s\<lparr>heap := heap s @ xs, buff := b\<rparr>)"
  using assms by (auto simp: wf_def list_all_iff)

lemma old_objects:
  assumes "wf s" and "(n, a) \<in> set (params s)"
  shows "(heap s @ xs) ! a = heap s ! a"
proof -
  from assms have "a < length (heap s)" by (auto simp: wf_def list_all_iff)
  then show ?thesis by (simp add: nth_append)
qed

text \<open>
  Claim C3. Whenever a generation pass (\<open>writeInitCode\<close> or \<open>writeInitCodeJS\<close>) returns,
  it has appended one text and left the dictionary \<open>self.params\<close> and every Param object
  in it as they were: value and type are unchanged, because the loop of the Web emitter
  assigns only to the objects \<open>getInitVals\<close> created. A second pass on the resulting
  state returns as well, appends the same text again and leaves the Params unchanged
  again.
\<close>

theorem C3_generation_repeatable:
  assumes "wf s" and "generate col t s = Inr s1"
  shows "\<exists>txt s2. buff s1 = buff s @ [txt] \<and>
     generate col t s1 = Inr s2 \<and> buff s2 = buff s1 @ [txt] \<and>
     params s1 = params s \<and> params s2 = params s \<and>
     (\<forall>(n, a) \<in> set (params s). heap s1 ! a = heap s ! a \<and> heap s2 ! a = heap s ! a)"
proof -
  from assms(2) obtain u ip p where
    u: "map_of (params s) ''units'' = Some u" and
    all: "\<forall>k \<in> set (fields (template_of t)). map_of (params s) k \<noteq> None" and
    ip: "map_of (params s) ''interpolate'' = Some ip" and
    p: "position_in (self_id s) (routine s) = Some p" and
    s1: "s1 = s\<lparr>heap := heap s @ new_objects col t s,
              buff := buff s @ [body_text col t s u @ interpolate_text t (val (heap s ! ip))
                 @ depth_text t p]\<rparr>"
    unfolding generate_Inr_iff [OF assms(1)] by blast
  let ?txt = "body_text col t s u @ interpolate_text t (val (heap s ! ip)) @ depth_text t p"
  have w1: "wf s1" unfolding s1 by (rule wf_extend [OF assms(1)])
  have ps: "params s1 = params s" and r: "routine s1 = routine s" and i: "self_id s1 = self_id s"
    and h1: "heap s1 = heap s @ new_objects col t s" and b1: "buff s1 = buff s @ [?txt]"
    by (simp_all add: s1)
  have old1: "heap s1 ! a = heap s ! a" if "(n, a) \<in> set (params s)" for n a
    unfolding h1 by (rule old_objects [OF assms(1) that])
  have ag: "\<forall>k a. k \<noteq> ''interpolate'' \<and> map_of (params s) k = Some a \<longrightarrow>
              heap s1 ! a = heap s ! a"
    using old1 by (auto dest: map_of_SomeD)
  have bt: "body_text col t s1 u = body_text col t s u"
    by (rule body_text_agree [OF ps ag u])
  from ip have "(''interpolate'', ip) \<in> set (params s)" by (rule map_of_SomeD)
  from old1 [OF this] have iv: "heap s1 ! ip = heap s ! ip" .
  let ?s2 = "s1\<lparr>heap := heap s1 @ new_objects col t s1,
              buff := buff s1 @ [body_text col t s1 u @ interpolate_text t (val (heap s1 ! ip))
                 @ depth_text t p]\<rparr>"
  have g2: "generate col t s1 = Inr ?s2"
    unfolding generate_Inr_iff [OF w1] ps r i using u all ip p by blast
  have b2: "buff ?s2 = buff s1 @ [?txt]" by (simp add: bt iv)
  have ps2: "params ?s2 = params s" by (simp add: ps)
  have old2: "heap ?s2 ! a = heap s ! a" if "(n, a) \<in> set (params s)" for n a
  proof -
    from that have "(n, a) \<in> set (params s1)" by (simp add: ps)
    from old_objects [OF w1 this] have "heap ?s2 ! a = heap s1 ! a" by simp
    with old1 [OF that] show ?thesis by simp
  qed
  have frame: "\<forall>(n, a) \<in> set (params s). heap s1 ! a = heap s ! a \<and> heap ?s2 ! a = heap s ! a"
    using old1 old2 by blast
  show ?thesis
    by (rule exI [of _ ?txt], rule exI [of _ ?s2]) (intro conjI b1 g2 b2 ps ps2 frame)
qed

theorem C3_example_two_passes:
  "wf example \<and>
   (\<exists>txt s1 s2. generate spec_col PsychoPy example = Inr s1 \<and>
      generate spec_col PsychoPy s1 = Inr s2 \<and> buff s2 = [txt, txt] \<and>
      heap s2 ! 13 = mk (PyStr ''None'') ''str'') \<and>
   (\<exists>txt s1 s2. generate spec_col PsychoJS example = Inr s1 \<and>
      generate spec_col PsychoJS s1 = Inr s2 \<and> buff s2 = [txt, txt] \<and>
      heap s2 ! 13 = mk (PyStr ''None'') ''str'')"
proof -
  have m: "(''mask'', 13) \<in> set (params example)" by (simp add: example_def)
  have h: "heap example ! 13 = mk (PyStr ''None'') ''str''" by (simp add: example_def)
  have e: "buff example = []" by (simp add: example_def)
  have both: "\<exists>txt s1 s2. generate spec_col t example = Inr s1 \<and>
      generate spec_col t s1 = Inr s2 \<and> buff s2 = [txt, txt] \<and>
      heap s2 ! 13 = mk (PyStr ''None'') ''str''"
    if ok: "\<not> isl (generate spec_col t example)" for t
  proof -
    from ok obtain s1 where s1: "generate spec_col t example = Inr s1"
      using not_isl_Inr by blast
    from C3_generation_repeatable [OF example_wf s1] obtain code s2 where
      b1: "buff s1 = buff example @ [code]" and
      s2: "generate spec_col t s1 = Inr s2" and
      b2: "buff s2 = buff s1 @ [code]" and
      fr: "\<forall>(n, a) \<in> set (params example).
             heap s1 ! a = heap example ! a \<and> heap s2 ! a = heap example ! a"
      by blast
    from fr m have "heap s2 ! 13 = heap example ! 13" by blast
    with h have h2: "heap s2 ! 13 = mk (PyStr ''None'') ''str''" by simp
    from b1 b2 e have "buff s2 = [code, code]" by simp
    with s1 s2 h2 show ?thesis by blast
  qed
  have "\<not> isl (generate spec_col PsychoPy example)" by code_simp
  from both [OF this] have py: "\<exists>txt s1 s2. generate spec_col PsychoPy example = Inr s1 \<and>
      generate spec_col PsychoPy s1 = Inr s2 \<and> buff s2 = [txt, txt] \<and>
      heap s2 ! 13 = mk (PyStr ''None'') ''str''" .
  have "\<not> isl (generate spec_col PsychoJS example)" by code_simp
  from both [OF this] have js: "\<exists>txt s1 s2. generate spec_col PsychoJS example = Inr s1 \<and>
      generate spec_col PsychoJS s1 = Inr s2 \<and> buff s2 = [txt, txt] \<and>
      heap s2 ! 13 = mk (PyStr ''None'') ''str''" .
  from example_wf py js show ?thesis by blast
qed

subsection \<open>The constructor and the names it deletes\<close>

lemma wf_iff:
  "wf s \<longleftrightarrow> distinct (map fst (params s)) \<and>
     (\<forall>k a. map_of (params s) k = Some a \<longrightarrow> a < length (heap s))"
proof -
  have "(\<forall>x\<in>set (params s). case x of (n, a) \<Rightarrow> a < length (heap s)) \<longleftrightarrow>
        (\<forall>k a. map_of (params s) k = Some a \<longrightarrow> a < length (heap s))"
    if "distinct (map fst (params s))"
    using that by (auto simp: map_of_eq_Some_iff)
  then show ?thesis by (auto simp: wf_def list_all_iff)
qed

lemma set_new_Param_wf: "wf s \<Longrightarrow> wf (set_new_Param k p s)"
  unfolding wf_iff
  by (auto simp: set_new_Param_def setitem_def distinct_update update_conv' less_Suc_eq
      split: if_splits)

lemma set_new_Param_simps:
  "map_of (params (set_new_Param k p s)) = (map_of (params s))(k \<mapsto> length (heap s))"
  "routine (set_new_Param k p s) = routine s"
  "self_id (set_new_Param k p s) = self_id s"
  by (simp_all add: set_new_Param_def setitem_def update_conv')

lemma del_param_Inr:
  assumes "del_param k s = Inr s'"
  shows "s' = s\<lparr>params := AList.delete k (params s)\<rparr>"
  using assms by (auto simp: del_param_def delitem_def split: option.splits)

lemma del_param_wf:
  assumes "del_param k s = Inr s'" and "wf s"
  shows "wf s'"
  using assms(2) unfolding del_param_Inr [OF assms(1)] wf_iff
  by (auto simp: distinct_delete delete_conv' split: if_splits)

lemma del_param_simps:
  assumes "del_param k s = Inr s'"
  shows "map_of (params s') = (map_of (params s))(k := None)"
    and "routine s' = routine s" and "self_id s' = self_id s"
  unfolding del_param_Inr [OF assms] by (simp_all add: delete_conv')

lemma ImageComponent_init_Inr:
  assumes "wf s"
    and "ImageComponent_init s image0 mask0 interpolate0 texRes flipVert flipHoriz = Inr c"
  shows "wf c" and "routine c = routine s" and "self_id c = self_id s"
    and "map_of (params c) =
      ((map_of (params s))
        (''image'' \<mapsto> length (heap s), ''mask'' \<mapsto> length (heap s) + 1,
         ''texture resolution'' \<mapsto> length (heap s) + 2,
         ''interpolate'' \<mapsto> length (heap s) + 3,
         ''flipVert'' \<mapsto> length (heap s) + 4, ''flipHoriz'' \<mapsto> length (heap s) + 5))
        (''fillColor'' := None, ''fillColorSpace'' := None,
         ''borderColor'' := None, ''borderColorSpace'' := None)"
proof -
  let ?s1 = "set_new_Param ''image'' \<lparr>val = image0, valType = ''file'', updates = ''constant''\<rparr> s"
  let ?s2 = "set_new_Param ''mask'' \<lparr>val = mask0, valType = ''str'', updates = ''constant''\<rparr> ?s1"
  let ?s3 = "set_new_Param ''texture resolution''
               \<lparr>val = texRes, valType = ''num'', updates = ''constant''\<rparr> ?s2"
  let ?s4 = "set_new_Param ''interpolate''
               \<lparr>val = interpolate0, valType = ''str'', updates = ''constant''\<rparr> ?s3"
  let ?s5 = "set_new_Param ''flipVert'' \<lparr>val = flipVert, valType = ''bool'', updates = ''constant''\<rparr> ?s4"
  let ?s6 = "set_new_Param ''flipHoriz'' \<lparr>val = flipHoriz, valType = ''bool'', updates = ''constant''\<rparr> ?s5"
  from assms(2) obtain s7 s8 s9 where
    d1: "del_param ''fillColor'' ?s6 = Inr s7" and
    d2: "del_param ''fillColorSpace'' s7 = Inr s8" and
    d3: "del_param ''borderColor'' s8 = Inr s9" and
    d4: "del_param ''borderColorSpace'' s9 = Inr c"
    by (auto simp: ImageComponent_init_def Let_def split: sum.splits)
  have w6: "wf ?s6" by (intro set_new_Param_wf assms(1))
  from del_param_wf [OF d4 del_param_wf [OF d3 del_param_wf [OF d2 del_param_wf [OF d1 w6]]]]
  show "wf c" .
  show "routine c = routine s"
    by (simp add: del_param_simps(2) [OF d4] del_param_simps(2) [OF d3] del_param_simps(2) [OF d2]
        del_param_simps(2) [OF d1] set_new_Param_simps)
  show "self_id c = self_id s"
    by (simp add: del_param_simps(3) [OF d4] del_param_simps(3) [OF d3] del_param_simps(3) [OF d2]
        del_param_simps(3) [OF d1] set_new_Param_simps)
  have h: "length (heap ?s1) = length (heap s) + 1" "length (heap ?s2) = length (heap s) + 2"
    "length (heap ?s3) = length (heap s) + 3" "length (heap ?s4) = length (heap s) + 4"
    "length (heap ?s5) = length (heap s) + 5"
    by (simp_all add: set_new_Param_def)
  show "map_of (params c) =
      ((map_of (params s))
        (''image'' \<mapsto> length (heap s), ''mask'' \<mapsto> length (heap s) + 1,
         ''texture resolution'' \<mapsto> length (heap s) + 2,
         ''interpolate'' \<mapsto> length (heap s) + 3,
         ''flipVert'' \<mapsto> length (heap s) + 4, ''flipHoriz'' \<mapsto> length (heap s) + 5))
        (''fillColor'' := None, ''fillColorSpace'' := None,
         ''borderColor'' := None, ''borderColorSpace'' := None)"
    unfolding del_param_simps(1) [OF d4] del_param_simps(1) [OF d3] del_param_simps(1) [OF d2]
        del_param_simps(1) [OF d1] set_new_Param_simps(1) h ..
qed

lemma deleted_not_in_lits:
  "list_all (\<lambda>k. list_all (\<lambda>l. \<not> sublist k l) (lits native_template @ lits js_template))
     [''fillColor'', ''fillColorSpace'', ''borderColor'', ''borderColorSpace'']"
  by code_simp

lemma deleted_not_in_fields:
  "list_all (\<lambda>k. k \<notin> set (fields native_template) \<and> k \<notin> set (fields js_template) \<and>
                 k \<noteq> ''units'' \<and> k \<noteq> ''interpolate'')
     [''fillColor'', ''fillColorSpace'', ''borderColor'', ''borderColorSpace'']"
  by (simp add: native_fields js_fields)

lemma deleted_not_in_templates:
  assumes "k \<in> set [''fillColor'', ''fillColorSpace'', ''borderColor'', ''borderColorSpace'']"
  shows "Inits k \<notin> set native_template \<and> Inits k \<notin> set js_template \<and>
         k \<noteq> ''units'' \<and> k \<noteq> ''interpolate'' \<and>
         (\<forall>l. Lit l \<in> set native_template \<union> set js_template \<longrightarrow> \<not> sublist k l)"
proof -
  from deleted_not_in_fields assms
  have f: "k \<notin> set (fields native_template) \<and> k \<notin> set (fields js_template) \<and>
                 k \<noteq> ''units'' \<and> k \<noteq> ''interpolate''"
    unfolding list_all_iff by (rule bspec)
  from deleted_not_in_lits assms
  have "list_all (\<lambda>l. \<not> sublist k l) (lits native_template @ lits js_template)"
    unfolding list_all_iff by (rule bspec)
  then have l: "\<forall>l. Lit l \<in> set native_template \<union> set js_template \<longrightarrow> \<not> sublist k l"
    by (auto simp: list_all_iff lits_iff)
  from f l show ?thesis by (simp add: fields_iff)
qed

lemma example_base_wf: "wf example_base"
  by (simp add: wf_def example_base_def)

lemma example_constructed:
  "ImageComponent_init example_base (PyStr ''face.jpg'') (PyStr ''None'') (PyStr ''linear'')
     (PyStr ''128'') (PyBool False) (PyBool False) = Inr example"
  by code_simp

lemma isl_iff_not_Inr: "(\<exists>c'. r = Inr c') \<longleftrightarrow> \<not> isl r"
  by (cases r) simp_all

text \<open>
  Claim C7. Take a state in which the base constructor defined the parameters \<open>name\<close>,
  \<open>units\<close>, \<open>ori\<close>, \<open>pos\<close>, \<open>size\<close>, \<open>color\<close>, \<open>colorSpace\<close> and \<open>opacity\<close>, and in which the
  component is in its routine. If the constructor of \<open>ImageComponent\<close> returns, then
  \<open>fillColor\<close>, \<open>fillColorSpace\<close>, \<open>borderColor\<close> and \<open>borderColorSpace\<close> are no keys of
  \<open>self.params\<close>; none of them is a field of the Native or the Web format string, none
  is one of the two names the emitters look up themselves, and no literal text of
  either format string contains one of them; and both emitters return, so no lookup
  raised \<open>KeyError\<close>.
\<close>

theorem C7_deleted_params_not_referenced:
  assumes "wf s"
    and "ImageComponent_init s image0 mask0 interpolate0 texRes flipVert flipHoriz = Inr c"
    and "list_all (\<lambda>k. map_of (params s) k \<noteq> None)
           [''name'', ''units'', ''ori'', ''pos'', ''size'', ''color'', ''colorSpace'', ''opacity'']"
    and "position_in (self_id s) (routine s) \<noteq> None"
  shows "wf c \<and>
    (\<forall>k \<in> set [''fillColor'', ''fillColorSpace'', ''borderColor'', ''borderColorSpace''].
        map_of (params c) k = None \<and>
        Inits k \<notin> set native_template \<and> Inits k \<notin> set js_template \<and>
        k \<noteq> ''units'' \<and> k \<noteq> ''interpolate'' \<and>
        (\<forall>l. Lit l \<in> set native_template \<union> set js_template \<longrightarrow> \<not> sublist k l)) \<and>
    (\<exists>c'. writeInitCode col c = Inr c') \<and> (\<exists>c'. writeInitCodeJS col c = Inr c')"
proof -
  note init = ImageComponent_init_Inr [OF assms(1,2)]
  have w: "wf c" by (rule init(1))
  note mp = init(4)
  from assms(3) have base:
    "map_of (params s) ''name'' \<noteq> None" "map_of (params s) ''units'' \<noteq> None"
    "map_of (params s) ''ori'' \<noteq> None" "map_of (params s) ''pos'' \<noteq> None"
    "map_of (params s) ''size'' \<noteq> None" "map_of (params s) ''color'' \<noteq> None"
    "map_of (params s) ''colorSpace'' \<noteq> None" "map_of (params s) ''opacity'' \<noteq> None"
    by simp_all
  have gone: "map_of (params c) k = None"
    if "k \<in> set [''fillColor'', ''fillColorSpace'', ''borderColor'', ''borderColorSpace'']" for k
    using that unfolding mp by auto
  have del: "\<forall>k \<in> set [''fillColor'', ''fillColorSpace'', ''borderColor'', ''borderColorSpace''].
        map_of (params c) k = None \<and>
        Inits k \<notin> set native_template \<and> Inits k \<notin> set js_template \<and>
        k \<noteq> ''units'' \<and> k \<noteq> ''interpolate'' \<and>
        (\<forall>l. Lit l \<in> set native_template \<union> set js_template \<longrightarrow> \<not> sublist k l)"
    using gone deleted_not_in_templates by blast
  have u: "map_of (params c) ''units'' \<noteq> None" using base(2) unfolding mp by simp
  have ip: "map_of (params c) ''interpolate'' \<noteq> None" unfolding mp by simp
  have nf: "\<forall>k \<in> set (fields native_template). map_of (params c) k \<noteq> None"
    using base unfolding mp native_fields by simp
  have jf: "\<forall>k \<in> set (fields js_template). map_of (params c) k \<noteq> None"
    using base unfolding mp js_fields by simp
  from assms(4) have pos: "position_in (self_id c) (routine c) \<noteq> None"
    by (simp add: init(2,3))
  from u ip pos nf have n: "\<exists>c'. writeInitCode col c = Inr c'"
    unfolding writeInitCode_Inr_iff [OF w] fields_iff by auto
  from u ip pos jf have j: "\<exists>c'. writeInitCodeJS col c = Inr c'"
    unfolding writeInitCodeJS_Inr_iff [OF w] fields_iff by auto
  from w del n j show ?thesis by blast
qed

theorem C7_example_constructed:
  "wf example_base \<and>
   ImageComponent_init example_base (PyStr ''face.jpg'') (PyStr ''None'') (PyStr ''linear'')
     (PyStr ''128'') (PyBool False) (PyBool False) = Inr example \<and>
   map_of (params example_base) ''fillColor'' = Some 8 \<and>
   map_of (params example) ''fillColor'' = None \<and>
   map_of (params example) ''borderColorSpace'' = None \<and>
   wf example \<and>
   \<not> isl (writeInitCode spec_col example) \<and> \<not> isl (writeInitCodeJS spec_col example) \<and>
   \<not> sublist ''fillColor'' (emitted (writeInitCode spec_col example)) \<and>
   \<not> sublist ''borderColor'' (emitted (writeInitCode spec_col example)) \<and>
   \<not> sublist ''fillColor'' (emitted (writeInitCodeJS spec_col example)) \<and>
   \<not> sublist ''borderColor'' (emitted (writeInitCodeJS spec_col example))"
proof -
  have a3: "list_all (\<lambda>k. map_of (params example_base) k \<noteq> None)
           [''name'', ''units'', ''ori'', ''pos'', ''size'', ''color'', ''colorSpace'', ''opacity'']"
    by (simp add: example_base_def)
  have a4: "position_in (self_id example_base) (routine example_base) \<noteq> None"
    by (simp add: example_base_def)
  note c7 = C7_deleted_params_not_referenced
    [OF example_base_wf example_constructed a3 a4, of spec_col]
  from c7 have w: "wf example" by blast
  from c7 have d: "\<forall>k \<in> set [''fillColor'', ''fillColorSpace'', ''borderColor'', ''borderColorSpace''].
        map_of (params example) k = None" by blast
  from d have g1: "map_of (params example) ''fillColor'' = None" by simp
  from d have g2: "map_of (params example) ''borderColorSpace'' = None" by simp
  from c7 have "\<exists>c'. writeInitCode spec_col example = Inr c'" by blast
  then have n: "\<not> isl (writeInitCode spec_col example)" unfolding isl_iff_not_Inr .
  from c7 have "\<exists>c'. writeInitCodeJS spec_col example = Inr c'" by blast
  then have j: "\<not> isl (writeInitCodeJS spec_col example)" unfolding isl_iff_not_Inr .
  have b: "map_of (params example_base) ''fillColor'' = Some 8"
    by (simp add: example_base_def)
  have t: "\<not> sublist ''fillColor'' (emitted (writeInitCode spec_col example)) \<and>
   \<not> sublist ''borderColor'' (emitted (writeInitCode spec_col example)) \<and>
   \<not> sublist ''fillColor'' (emitted (writeInitCodeJS spec_col example)) \<and>
   \<not> sublist ''borderColor'' (emitted (writeInitCodeJS spec_col example))"
    by code_simp
  from example_base_wf example_constructed b g1 g2 w n j t show ?thesis by blast
qed

end
